theory Spec2Isabelle
  imports Complex_Main
begin

section \<open>Numbers and strings of the Python source\<close>

text \<open>
  Python floats are modelled as ideal real numbers: every arithmetic operation is exact.
  Python integers are \<open>int\<close>, strings are \<open>string\<close>, and a raised exception is the
  \<open>Inl\<close> branch of a sum type.
\<close>

datatype py_error =
    ValueError | TypeError | KeyError | AttributeError | IndexError
  | ZeroDivisionError | NodeNotFound | NetworkXNoPath

text \<open>\<open>int(x)\<close> on a float truncates towards zero.\<close>

definition py_int :: "real \<Rightarrow> int" where
  "py_int x = (if 0 \<le> x then \<lfloor>x\<rfloor> else \<lceil>x\<rceil>)"

text \<open>\<open>x % m\<close> on floats, for a positive modulus: the result lies in \<open>[0, m)\<close>.\<close>

definition py_fmod :: "real \<Rightarrow> real \<Rightarrow> real" where
  "py_fmod x m = x - m * of_int \<lfloor>x / m\<rfloor>"

text \<open>\<open>round(x)\<close> rounds to the nearest integer, a tie going to the even neighbour.\<close>

definition py_round :: "real \<Rightarrow> int" where
  "py_round x =
     (let f = \<lfloor>x\<rfloor>; r = x - of_int f
      in if r < 1 / 2 then f
         else if 1 / 2 < r then f + 1
         else if even f then f else f + 1)"

text \<open>\<open>round(x, n)\<close> keeps \<open>n\<close> decimal places.\<close>

definition py_round_nd :: "real \<Rightarrow> nat \<Rightarrow> real" where
  "py_round_nd x n = of_int (py_round (x * 10 ^ n)) / 10 ^ n"

section \<open>Corridor simulation (core/corridor.py)\<close>

record intersection =
  int_id :: string
  int_name :: string
  lat :: real
  lon :: real

definition CORRIDOR :: "intersection list" where
  "CORRIDOR =
     [\<lparr>int_id = ''INT_0'', int_name = ''Main St & 1st Ave'', lat = 23.033, lon = 72.541\<rparr>,
      \<lparr>int_id = ''INT_1'', int_name = ''Main St & 2nd Ave'', lat = 23.033, lon = 72.545\<rparr>,
      \<lparr>int_id = ''INT_2'', int_name = ''Main St & 3rd Ave'', lat = 23.033, lon = 72.549\<rparr>,
      \<lparr>int_id = ''INT_3'', int_name = ''Main St & 4th Ave'', lat = 23.033, lon = 72.553\<rparr>,
      \<lparr>int_id = ''INT_4'', int_name = ''Main St & 5th Ave'', lat = 23.033, lon = 72.557\<rparr>,
      \<lparr>int_id = ''INT_5'', int_name = ''Main St & 6th Ave'', lat = 23.033, lon = 72.561\<rparr>,
      \<lparr>int_id = ''INT_6'', int_name = ''Main St & 7th Ave'', lat = 23.033, lon = 72.565\<rparr>,
      \<lparr>int_id = ''INT_7'', int_name = ''Main St & 8th Ave'', lat = 23.033, lon = 72.569\<rparr>]"

definition CORRIDOR_IDS :: "string list" where
  "CORRIDOR_IDS = map int_id CORRIDOR"

subsection \<open>Signal plans\<close>

definition baseline_signal :: "real \<Rightarrow> int \<Rightarrow> string" where
  "baseline_signal t node_idx =
     (let cycle = 90;
          offset = (node_idx * 13) mod cycle;
          local = py_fmod (t + of_int offset) (of_int cycle)
      in if local < 40 then ''GREEN''
         else if local < 45 then ''YELLOW''
         else ''RED'')"

text \<open>The green time of the adaptive plan, the local \<open>green_time\<close> of \<open>optimized_signal\<close>.\<close>

definition green_time :: "real \<Rightarrow> int" where
  "green_time queue = min 55 (25 + py_int (queue * 0.6))"

definition optimized_signal :: "real \<Rightarrow> int \<Rightarrow> real \<Rightarrow> string" where
  "optimized_signal t node_idx queue =
     (let cycle = 75;
          offset = (node_idx * 9) mod cycle;
          local = py_fmod (t + of_int offset) (of_int cycle)
      in if local < of_int (green_time queue) then ''GREEN''
         else if local < of_int (green_time queue + 4) then ''YELLOW''
         else ''RED'')"

subsection \<open>Arrivals\<close>

definition arrival_rate :: "real \<Rightarrow> real" where
  "arrival_rate t =
     (if 120 \<le> t \<and> t < 180 then 0.8 + 0.4 * sin ((t - 120) * pi / 60)
      else if t < 120 then 0.4 + 0.2 * sin (t * pi / 120)
      else 0.2)"

subsection \<open>Simulation\<close>

record NodeState =
  queue :: real
  delay :: real

definition NodeState0 :: NodeState where
  "NodeState0 = \<lparr>queue = 0, delay = 0\<rparr>"

definition DT :: real where
  "DT = 5"

definition per_vehicle_fuel :: "real \<Rightarrow> real" where
  "per_vehicle_fuel idling_seconds = idling_seconds * (0.6 / 60)"

text \<open>The baseline branch of the loop body, for one node.\<close>

definition baseline_node :: "real \<Rightarrow> real \<Rightarrow> int \<Rightarrow> NodeState \<Rightarrow> NodeState" where
  "baseline_node t arrivals i bs =
     (let bph = baseline_signal t i
      in if bph = ''GREEN'' then bs\<lparr>queue := max 0 (queue bs + arrivals - 0.5 * DT)\<rparr>
         else if bph = ''RED'' then
           (let q = queue bs + arrivals in bs\<lparr>queue := q, delay := delay bs + q * DT\<rparr>)
         else bs\<lparr>queue := queue bs + arrivals * 0.2\<rparr>)"

text \<open>The optimized branch of the loop body, for one node.\<close>

definition optimized_node :: "real \<Rightarrow> real \<Rightarrow> int \<Rightarrow> NodeState \<Rightarrow> NodeState" where
  "optimized_node t arrivals i os =
     (let oph = optimized_signal t i (queue os)
      in if oph = ''GREEN'' then os\<lparr>queue := max 0 (queue os + arrivals - 0.65 * DT)\<rparr>
         else if oph = ''RED'' then
           (let q = queue os + arrivals in os\<lparr>queue := q, delay := delay os + q * DT * 0.55\<rparr>)
         else os\<lparr>queue := queue os + arrivals * 0.15\<rparr>)"

text \<open>
  The state of one tick's \<open>for i in range(n)\<close> loop: both state lists, updated in place,
  and the four running totals.
\<close>

record tick_acc =
  b_states :: "NodeState list"
  o_states :: "NodeState list"
  b_total_q :: real
  b_total_d :: real
  o_total_q :: real
  o_total_d :: real

definition node_step :: "real \<Rightarrow> real \<Rightarrow> nat \<Rightarrow> tick_acc \<Rightarrow> tick_acc" where
  "node_step t arrivals i a =
     (let bs = baseline_node t arrivals (int i) (b_states a ! i);
          os = optimized_node t arrivals (int i) (o_states a ! i)
      in \<lparr>b_states = (b_states a)[i := bs],
          o_states = (o_states a)[i := os],
          b_total_q = b_total_q a + queue bs,
          b_total_d = b_total_d a + delay bs,
          o_total_q = o_total_q a + queue os,
          o_total_d = o_total_d a + delay os\<rparr>)"

definition tick :: "real \<Rightarrow> NodeState list \<Rightarrow> NodeState list \<Rightarrow> tick_acc" where
  "tick t bss oss =
     fold (node_step t (arrival_rate t * DT)) [0 ..< length CORRIDOR]
       \<lparr>b_states = bss, o_states = oss,
        b_total_q = 0, b_total_d = 0, o_total_q = 0, o_total_d = 0\<rparr>"

record series_record =
  time_s :: int
  queue_length :: real
  avg_delay_s :: real
  fuel_L :: real
  co2_kg :: real

definition mk_record :: "real \<Rightarrow> real \<Rightarrow> real \<Rightarrow> series_record" where
  "mk_record t total_q total_d =
     (let n = real (length CORRIDOR);
          arrivals = arrival_rate t * DT;
          fuel = per_vehicle_fuel total_d
      in \<lparr>time_s = py_round t,
          queue_length = py_round_nd total_q 1,
          avg_delay_s = py_round_nd (total_d / (n * max 1 arrivals)) 1,
          fuel_L = py_round_nd fuel 3,
          co2_kg = py_round_nd (fuel * 2.31) 3\<rparr>)"

record sim_state =
  baseline_states :: "NodeState list"
  optimized_states :: "NodeState list"
  baseline_series :: "series_record list"
  optimized_series :: "series_record list"

text \<open>The \<open>while t <= duration_s\<close> loop of \<open>run_comparison\<close>.\<close>

function sim_loop :: "real \<Rightarrow> real \<Rightarrow> sim_state \<Rightarrow> sim_state" where
  "sim_loop duration_s t s =
     (if t \<le> duration_s then
        (let a = tick t (baseline_states s) (optimized_states s)
         in sim_loop duration_s (t + DT)
              \<lparr>baseline_states = b_states a,
               optimized_states = o_states a,
               baseline_series =
                 baseline_series s @ [mk_record t (b_total_q a) (b_total_d a)],
               optimized_series =
                 optimized_series s @ [mk_record t (o_total_q a) (o_total_d a)]\<rparr>)
      else s)"
  by pat_completeness auto
termination
proof (relation "measure (\<lambda>(d, t, s). nat (\<lfloor>(d - t) / 5\<rfloor> + 1))")
  show "wf (measure (\<lambda>(d, t, s). nat (\<lfloor>(d - t) / 5\<rfloor> + 1)))"
    by simp
next
  fix duration_s t :: real and s :: sim_state and x :: tick_acc
  assume le: "t \<le> duration_s"
  have "(duration_s - (t + DT)) / 5 = (duration_s - t) / 5 - 1"
    unfolding DT_def by argo
  then have "\<lfloor>(duration_s - (t + DT)) / 5\<rfloor> = \<lfloor>(duration_s - t) / 5\<rfloor> - 1"
    by (simp only: floor_diff_one)
  moreover have "0 \<le> \<lfloor>(duration_s - t) / 5\<rfloor>"
    using le by simp
  ultimately show
    "((duration_s, t + DT,
       \<lparr>baseline_states = b_states x, optimized_states = o_states x,
        baseline_series = baseline_series s @ [mk_record t (b_total_q x) (b_total_d x)],
        optimized_series = optimized_series s @ [mk_record t (o_total_q x) (o_total_d x)]\<rparr>),
      (duration_s, t, s))
     \<in> measure (\<lambda>(d, t, s). nat (\<lfloor>(d - t) / 5\<rfloor> + 1))"
    by simp
qed

declare sim_loop.simps [simp del]

record summary =
  queue_reduction_pct :: real
  delay_reduction_pct :: real
  fuel_saved_L :: real
  co2_saved_kg :: real
  baseline_final_queue :: real
  optimized_final_queue :: real

record comparison =
  corridor :: "intersection list"
  duration_of :: real
  baseline :: "series_record list"
  optimized :: "series_record list"
  summary_of :: summary

text \<open>
  \<open>run_comparison\<close>. Reading \<open>baseline_series[-1]\<close> raises \<open>IndexError\<close> when the loop
  has not run (a negative duration).
\<close>

definition run_comparison :: "real \<Rightarrow> py_error + comparison" where
  "run_comparison duration_s =
     (let n = length CORRIDOR;
          s = sim_loop duration_s 0
                \<lparr>baseline_states = replicate n NodeState0,
                 optimized_states = replicate n NodeState0,
                 baseline_series = [], optimized_series = []\<rparr>
      in if baseline_series s = [] \<or> optimized_series s = [] then Inl IndexError
         else
           (let b_final = last (baseline_series s);
                o_final = last (optimized_series s);
                queue_reduction =
                  py_round_nd ((queue_length b_final - queue_length o_final) /
                               max 1 (queue_length b_final) * 100) 1;
                delay_reduction =
                  py_round_nd ((avg_delay_s b_final - avg_delay_s o_final) /
                               max 1 (avg_delay_s b_final) * 100) 1;
                fuel_saved = py_round_nd (fuel_L b_final - fuel_L o_final) 3;
                co2_saved = py_round_nd (fuel_saved * 2.31) 3
            in Inr \<lparr>corridor = CORRIDOR,
                    duration_of = duration_s,
                    baseline = baseline_series s,
                    optimized = optimized_series s,
                    summary_of =
                      \<lparr>queue_reduction_pct = queue_reduction,
                       delay_reduction_pct = delay_reduction,
                       fuel_saved_L = fuel_saved,
                       co2_saved_kg = co2_saved,
                       baseline_final_queue = queue_length b_final,
                       optimized_final_queue = queue_length o_final\<rparr>\<rparr>))"

text \<open>
  The states the loop of \<open>run_comparison\<close> passes through: for each tick \<open>t\<close> the two
  state lists as they stand at the end of that tick's body. The recursion is the one of
  \<open>sim_loop\<close>; only what is kept differs.
\<close>

function sim_states ::
  "real \<Rightarrow> real \<Rightarrow> NodeState list \<Rightarrow> NodeState list
   \<Rightarrow> (real \<times> NodeState list \<times> NodeState list) list" where
  "sim_states duration_s t bss oss =
     (if t \<le> duration_s then
        (let a = tick t bss oss
         in (t, b_states a, o_states a)
            # sim_states duration_s (t + DT) (b_states a) (o_states a))
      else [])"
  by pat_completeness auto
termination
proof (relation "measure (\<lambda>(d, t, bss, oss). nat (\<lfloor>(d - t) / 5\<rfloor> + 1))")
  show "wf (measure (\<lambda>(d, t, bss, oss). nat (\<lfloor>(d - t) / 5\<rfloor> + 1)))"
    by simp
next
  fix duration_s t :: real and bss oss :: "NodeState list" and x :: tick_acc
  assume le: "t \<le> duration_s"
  have "(duration_s - (t + DT)) / 5 = (duration_s - t) / 5 - 1"
    unfolding DT_def by argo
  then have "\<lfloor>(duration_s - (t + DT)) / 5\<rfloor> = \<lfloor>(duration_s - t) / 5\<rfloor> - 1"
    by (simp only: floor_diff_one)
  moreover have "0 \<le> \<lfloor>(duration_s - t) / 5\<rfloor>"
    using le by simp
  ultimately show
    "((duration_s, t + DT, b_states x, o_states x), (duration_s, t, bss, oss))
     \<in> measure (\<lambda>(d, t, bss, oss). nat (\<lfloor>(d - t) / 5\<rfloor> + 1))"
    by simp
qed

declare sim_states.simps [simp del]

definition run_states :: "real \<Rightarrow> (real \<times> NodeState list \<times> NodeState list) list" where
  "run_states duration_s =
     sim_states duration_s 0
       (replicate (length CORRIDOR) NodeState0) (replicate (length CORRIDOR) NodeState0)"

text \<open>Every queue of a state list is non-negative.\<close>

definition queues_ok :: "NodeState list \<Rightarrow> bool" where
  "queues_ok ss = (\<forall>s \<in> set ss. 0 \<le> queue s)"

section \<open>Road network and routing (core/graph.py, core/optimizer.py)\<close>

subsection \<open>The graph\<close>

text \<open>
  An undirected \<open>networkx\<close> graph, as far as this module reads it: the nodes in the order
  they were added, with their attributes, and the edges as \<open>G.edges()\<close> enumerates them.
  That enumeration has one entry \<open>(u, v, data)\<close> for each undirected edge, and \<open>u\<close> is
  the endpoint that comes first in the order of the nodes. \<open>G[u][v]\<close> and \<open>G[v][u]\<close> are
  the same attribute dictionary.
\<close>

record node_data =
  node_pos :: "real \<times> real"
  node_name :: string

record edge_data =
  distance :: real
  speed_limit :: real
  base_time :: real
  current_weight :: "real option"

record graph =
  g_nodes :: "(string \<times> node_data) list"
  g_edges :: "(string \<times> string \<times> edge_data) list"

definition node_ids :: "graph \<Rightarrow> string list" where
  "node_ids G = map fst (g_nodes G)"

text \<open>\<open>str(n)\<close> for a natural number, as the f-string of the node ids formats it.\<close>

definition digit_char :: "nat \<Rightarrow> char" where
  "digit_char n = ''0123456789'' ! n"

function show_nat :: "nat \<Rightarrow> string" where
  "show_nat n = (if n < 10 then [digit_char n] else show_nat (n div 10) @ [digit_char (n mod 10)])"
  by pat_completeness auto
termination
  by (relation "measure id") auto

declare show_nat.simps [simp del]

definition grid_node_id :: "nat \<Rightarrow> nat \<Rightarrow> string" where
  "grid_node_id r c = show_nat r @ ''-'' @ show_nat c"

text \<open>The attributes every edge of the grid gets: 500 m at 50 km/h.\<close>

definition grid_edge_data :: edge_data where
  "grid_edge_data =
     (let dist = 500
      in \<lparr>distance = dist, speed_limit = 50, base_time = dist / (50 / 3.6),
          current_weight = None\<rparr>)"

text \<open>
  \<open>generate_city_grid\<close>. \<open>nx.grid_2d_graph\<close> adds the nodes row by row, and
  \<open>relabel_nodes\<close> keeps that order, so \<open>G.edges()\<close> lists, for each node in row-major
  order, its edge to the node below and then its edge to the node on its right: the first
  endpoint of every edge is its upper or left end.
\<close>

definition generate_city_grid :: "nat \<Rightarrow> nat \<Rightarrow> graph" where
  "generate_city_grid rows cols =
     (let base_lat = 23.0300; base_lon = 72.5400; lat_step = 0.0045; lon_step = 0.0045
      in \<lparr>g_nodes =
            concat (map (\<lambda>r. map (\<lambda>c.
              (grid_node_id r c,
               \<lparr>node_pos = (base_lat + real r * lat_step, base_lon + real c * lon_step),
                node_name = ''Intersection '' @ grid_node_id r c\<rparr>)) [0 ..< cols]) [0 ..< rows]),
          g_edges =
            concat (map (\<lambda>r. concat (map (\<lambda>c.
              (if r + 1 < rows then [(grid_node_id r c, grid_node_id (r + 1) c, grid_edge_data)]
               else []) @
              (if c + 1 < cols then [(grid_node_id r c, grid_node_id r (c + 1), grid_edge_data)]
               else [])) [0 ..< cols])) [0 ..< rows])\<rparr>)"

definition CITY_GRAPH :: graph where
  "CITY_GRAPH = generate_city_grid 7 8"

subsection \<open>Weights\<close>

text \<open>A dictionary of queue lengths; \<open>d.get(k, 0)\<close>.\<close>

type_synonym queues = "(string \<times> real) list"

definition dict_get :: "queues \<Rightarrow> string \<Rightarrow> real" where
  "dict_get d k = (case map_of d k of None \<Rightarrow> 0 | Some q \<Rightarrow> q)"

text \<open>
  The first part of \<open>get_best_route\<close>: the loop over \<open>G.edges()\<close> that stores
  \<open>current_weight\<close> on every edge of the copy. \<open>if traffic_data\<close> is false for \<open>None\<close>
  and for an empty dictionary.
\<close>

definition set_current_weights :: "graph \<Rightarrow> queues option \<Rightarrow> graph" where
  "set_current_weights G traffic_data =
     (case traffic_data of
        Some (x # xs) \<Rightarrow>
          G\<lparr>g_edges :=
              map (\<lambda>(u, v, d).
                     (let queue_len = dict_get (x # xs) v;
                          weight = base_time d;
                          penalty = queue_len * 2.0
                      in (u, v, d\<lparr>current_weight := Some (weight + penalty)\<rparr>)))
                  (g_edges G)\<rparr>
      | _ \<Rightarrow>
          G\<lparr>g_edges :=
              map (\<lambda>(u, v, d). (u, v, d\<lparr>current_weight := Some (base_time d)\<rparr>)) (g_edges G)\<rparr>)"

text \<open>
  The weight a path search reads when it goes from \<open>u\<close> to \<open>v\<close>: the \<open>current_weight\<close>
  stored on the undirected edge between them (1 when the attribute is missing), whichever
  way the edge is enumerated.
\<close>

definition traversal_weight :: "graph \<Rightarrow> string \<Rightarrow> string \<Rightarrow> real option" where
  "traversal_weight G u v =
     (case find (\<lambda>(a, b, d). (a = u \<and> b = v) \<or> (a = v \<and> b = u)) (g_edges G) of
        None \<Rightarrow> None
      | Some (a, b, d) \<Rightarrow> Some (case current_weight d of None \<Rightarrow> 1 | Some w \<Rightarrow> w))"

subsection \<open>Shortest paths\<close>

text \<open>
  \<open>nx.shortest_path(G, source, target, weight)\<close> is library code. Its documented
  behaviour: \<open>NodeNotFound\<close> when an endpoint is not a node of \<open>G\<close>, \<open>NetworkXNoPath\<close>
  when the target cannot be reached, and otherwise a path of least total weight from the
  source to the target. The search below is Dijkstra's algorithm over the stored weights;
  nothing here relies on which of several paths of least weight the library returns.
\<close>

type_synonym label = "real \<times> string list"

definition neighbours :: "graph \<Rightarrow> string \<Rightarrow> (string \<times> real) list" where
  "neighbours G v =
     concat (map (\<lambda>(a, b, d).
       (let w = (case current_weight d of None \<Rightarrow> 1 | Some w \<Rightarrow> w)
        in (if a = v then [(b, w)] else []) @ (if b = v \<and> a \<noteq> v then [(a, w)] else [])))
       (g_edges G))"

text \<open>The reached node of least distance among those not yet settled.\<close>

fun pick_min :: "string list \<Rightarrow> (string \<rightharpoonup> label) \<Rightarrow> (string \<times> label) option" where
  "pick_min [] seen = None"
| "pick_min (v # vs) seen =
     (case seen v of
        None \<Rightarrow> pick_min vs seen
      | Some (d, p) \<Rightarrow>
          (case pick_min vs seen of
             None \<Rightarrow> Some (v, (d, p))
           | Some (u, (du, pu)) \<Rightarrow> if d \<le> du then Some (v, (d, p)) else Some (u, (du, pu))))"

definition relax :: "string list \<Rightarrow> label \<Rightarrow> string \<times> real \<Rightarrow> (string \<rightharpoonup> label) \<Rightarrow> (string \<rightharpoonup> label)" where
  "relax todo l e seen =
     (case l of (d, p) \<Rightarrow> case e of (u, w) \<Rightarrow>
        if u \<in> set todo \<and> (case seen u of None \<Rightarrow> True | Some (du, pu) \<Rightarrow> d + w < du)
        then seen(u \<mapsto> (d + w, p @ [u])) else seen)"

function dijkstra ::
  "graph \<Rightarrow> string \<Rightarrow> string list \<Rightarrow> (string \<rightharpoonup> label) \<Rightarrow> (string \<rightharpoonup> label)" where
  "dijkstra G target todo seen =
     (case pick_min todo seen of
        None \<Rightarrow> seen
      | Some (v, l) \<Rightarrow>
          if v = target then seen
          else dijkstra G target (remove1 v todo)
                 (fold (relax (remove1 v todo) l) (neighbours G v) seen))"
  by pat_completeness auto
termination
proof (relation "measure (\<lambda>(G, target, todo, seen). length todo)")
  show "wf (measure (\<lambda>(G, target, todo, seen). length todo))"
    by simp
next
  fix G :: graph and target :: string and todo :: "string list"
    and seen :: "string \<rightharpoonup> label" and x2 :: "string \<times> label" and v :: string and l :: label
  assume picked: "pick_min todo seen = Some x2" "(v, l) = x2"
  have mem: "pick_min ts seen = Some (w, k) \<Longrightarrow> w \<in> set ts" for ts w k
    by (induction ts arbitrary: w k) (auto split: option.splits if_splits prod.splits)
  have "v \<in> set todo"
    using picked mem [of todo v l] by simp
  then have "length (remove1 v todo) < length todo"
    by (simp add: length_remove1) (cases todo, auto)
  then show "((G, target, remove1 v todo,
               fold (relax (remove1 v todo) l) (neighbours G v) seen),
              (G, target, todo, seen))
             \<in> measure (\<lambda>(G, target, todo, seen). length todo)"
    by simp
qed

declare dijkstra.simps [simp del]

definition nx_shortest_path :: "graph \<Rightarrow> string \<Rightarrow> string \<Rightarrow> py_error + string list" where
  "nx_shortest_path G source target =
     (if source \<notin> set (node_ids G) \<or> target \<notin> set (node_ids G) then Inl NodeNotFound
      else case dijkstra G target (node_ids G) [source \<mapsto> (0, [source])] target of
             None \<Rightarrow> Inl NetworkXNoPath
           | Some (d, p) \<Rightarrow> Inr p)"

text \<open>
  \<open>get_best_route\<close>, with the graph it copies, the global \<open>CITY_GRAPH\<close>, as a parameter.
  Only \<open>NetworkXNoPath\<close> is caught; any other exception leaves the function.
\<close>

definition get_best_route_on ::
  "graph \<Rightarrow> string \<Rightarrow> string \<Rightarrow> queues option \<Rightarrow> py_error + string list" where
  "get_best_route_on G start_node end_node traffic_data =
     (case nx_shortest_path (set_current_weights G traffic_data) start_node end_node of
        Inl NetworkXNoPath \<Rightarrow> Inr []
      | Inl e \<Rightarrow> Inl e
      | Inr path \<Rightarrow> Inr path)"

definition get_best_route :: "string \<Rightarrow> string \<Rightarrow> queues option \<Rightarrow> py_error + string list" where
  "get_best_route = get_best_route_on CITY_GRAPH"

subsection \<open>The optimizer\<close>

record realtime =
  signals :: "(string \<times> string) list option"
  queues_of :: "queues option"

definition calculate_cost :: "string \<Rightarrow> string \<Rightarrow> edge_data \<Rightarrow> realtime option \<Rightarrow> real" where
  "calculate_cost u v data realtime_data =
     (case realtime_data of
        None \<Rightarrow> base_time data
      | Some rd \<Rightarrow>
          if signals rd = None \<and> queues_of rd = None then base_time data
          else
            (let node_data = (case signals rd of None \<Rightarrow> None | Some s \<Rightarrow> map_of s v);
                 queue_len = (case queues_of rd of None \<Rightarrow> 0 | Some q \<Rightarrow> dict_get q v);
                 cost = base_time data;
                 cost = (if node_data = Some ''RED'' then cost + 30 else cost)
             in cost + queue_len * 2))"

definition heuristic :: "graph \<Rightarrow> string \<Rightarrow> string \<Rightarrow> py_error + real" where
  "heuristic G n1 n2 =
     (case (map_of (g_nodes G) n1, map_of (g_nodes G) n2) of
        (Some d1, Some d2) \<Rightarrow>
          Inr (sqrt ((fst (node_pos d1) - fst (node_pos d2))\<^sup>2 +
                     (snd (node_pos d1) - snd (node_pos d2))\<^sup>2) * 100000)
      | _ \<Rightarrow> Inl KeyError)"

text \<open>
  \<open>nx.astar_path\<close> is library code: it raises \<open>NodeNotFound\<close> when an endpoint is not a
  node of the graph and searches otherwise. Its search loop is the parameter \<open>search\<close>,
  which returns a path or raises.
\<close>

type_synonym astar_search =
  "graph \<Rightarrow> string \<Rightarrow> string \<Rightarrow> (string \<Rightarrow> string \<Rightarrow> py_error + real)
   \<Rightarrow> (string \<Rightarrow> string \<Rightarrow> edge_data \<Rightarrow> real) \<Rightarrow> py_error + string list"

definition nx_astar_path ::
  "astar_search \<Rightarrow> graph \<Rightarrow> string \<Rightarrow> string \<Rightarrow> (string \<Rightarrow> string \<Rightarrow> py_error + real)
   \<Rightarrow> (string \<Rightarrow> string \<Rightarrow> edge_data \<Rightarrow> real) \<Rightarrow> py_error + string list" where
  "nx_astar_path search G source target h w =
     (if source \<notin> set (node_ids G) \<or> target \<notin> set (node_ids G) then Inl NodeNotFound
      else search G source target h w)"

definition find_optimal_path ::
  "astar_search \<Rightarrow> graph \<Rightarrow> string \<Rightarrow> string \<Rightarrow> realtime option \<Rightarrow> py_error + string list" where
  "find_optimal_path search G start_node end_node realtime_data =
     (case nx_astar_path search G start_node end_node (heuristic G)
             (\<lambda>u v data. calculate_cost u v data realtime_data) of
        Inl NetworkXNoPath \<Rightarrow> Inr []
      | Inl e \<Rightarrow> Inl e
      | Inr path \<Rightarrow> Inr path)"

text \<open>\<open>G.has_edge(u, v)\<close>: the two nodes are joined by an edge.\<close>

definition has_edge :: "graph \<Rightarrow> string \<Rightarrow> string \<Rightarrow> bool" where
  "has_edge G u v = list_ex (\<lambda>(a, b, d). (a = u \<and> b = v) \<or> (a = v \<and> b = u)) (g_edges G)"

section \<open>SPaT replay engine (simulation/spat\_engine.py)\<close>

subsection \<open>Strings\<close>

text \<open>\<open>str.strip()\<close> and \<open>str.upper()\<close>, on ASCII text.\<close>

definition is_space :: "char \<Rightarrow> bool" where
  "is_space c = (c \<in> set [CHR '' '', CHR 0x09, CHR 0x0A, CHR 0x0B, CHR 0x0C, CHR 0x0D,
                              CHR 0x1C, CHR 0x1D, CHR 0x1E, CHR 0x1F])"

definition py_strip :: "string \<Rightarrow> string" where
  "py_strip s = rev (dropWhile is_space (rev (dropWhile is_space s)))"

definition upper_char :: "char \<Rightarrow> char" where
  "upper_char c =
     (case map_of (zip ''abcdefghijklmnopqrstuvwxyz'' ''ABCDEFGHIJKLMNOPQRSTUVWXYZ'') c of
        None \<Rightarrow> c
      | Some u \<Rightarrow> u)"

definition py_upper :: "string \<Rightarrow> string" where
  "py_upper s = map upper_char s"

subsection \<open>Events and the engine\<close>

record SpatEvent =
  evt_time_s :: real
  intersection_id :: string
  phase :: string
  evt_duration_s :: real

text \<open>
  The attributes of \<open>SpatEngine\<close> that its methods read and write. The path of the file
  is replaced by the content of the file, passed to \<open>load\<close>; the lock is not modelled
  (every method runs alone).
\<close>

record SpatEngine =
  events :: "SpatEvent list"
  duration_s :: real
  current_state :: "(string \<times> string) list"
  current_time :: real
  loaded :: bool

definition new_engine :: SpatEngine where
  "new_engine =
     \<lparr>events = [], duration_s = 0, current_state = [], current_time = 0, loaded = False\<rparr>"

subsection \<open>Loading\<close>

text \<open>
  A row of \<open>csv.DictReader\<close>: the column names of the header with the text of each
  field; a row shorter than the header has \<open>None\<close> for the fields it lacks, and a column
  that the header lacks is not a key at all. \<open>float\<close> is Python's own parser of numbers,
  a parameter here: \<open>float_of s = None\<close> when \<open>float(s)\<close> raises \<open>ValueError\<close>.
\<close>

type_synonym csv_row = "(string \<times> string option) list"

definition parse_row :: "(string \<Rightarrow> real option) \<Rightarrow> csv_row \<Rightarrow> py_error + SpatEvent" where
  "parse_row float_of row =
     (case map_of row ''time_s'' of
        None \<Rightarrow> Inl KeyError
      | Some None \<Rightarrow> Inl TypeError
      | Some (Some ts) \<Rightarrow>
     (case float_of ts of
        None \<Rightarrow> Inl ValueError
      | Some t \<Rightarrow>
     (case map_of row ''intersection_id'' of
        None \<Rightarrow> Inl KeyError
      | Some None \<Rightarrow> Inl AttributeError
      | Some (Some iid) \<Rightarrow>
     (case map_of row ''phase'' of
        None \<Rightarrow> Inl KeyError
      | Some None \<Rightarrow> Inl AttributeError
      | Some (Some ph) \<Rightarrow>
     (case map_of row ''duration_s'' of
        None \<Rightarrow> Inl KeyError
      | Some None \<Rightarrow> Inl TypeError
      | Some (Some ds) \<Rightarrow>
     (case float_of ds of
        None \<Rightarrow> Inl ValueError
      | Some d \<Rightarrow>
          Inr \<lparr>evt_time_s = t, intersection_id = py_strip iid,
               phase = py_upper (py_strip ph), evt_duration_s = d\<rparr>))))))"

text \<open>
  The \<open>for row in reader\<close> loop: each event is appended to \<open>self.events\<close> as soon as it
  is built, and an exception leaves the loop with the events appended so far.
\<close>

fun load_rows ::
  "(string \<Rightarrow> real option) \<Rightarrow> csv_row list \<Rightarrow> SpatEvent list
   \<Rightarrow> py_error option \<times> SpatEvent list" where
  "load_rows float_of [] evs = (None, evs)"
| "load_rows float_of (row # rows) evs =
     (case parse_row float_of row of
        Inl e \<Rightarrow> (Some e, evs)
      | Inr evt \<Rightarrow> load_rows float_of rows (evs @ [evt]))"

text \<open>\<open>load\<close> returns the exception it raised, if any, and the engine as it is then.\<close>

definition load ::
  "(string \<Rightarrow> real option) \<Rightarrow> csv_row list \<Rightarrow> SpatEngine \<Rightarrow> (py_error + unit) \<times> SpatEngine" where
  "load float_of rows eng =
     (case load_rows float_of rows [] of
        (Some e, evs) \<Rightarrow> (Inl e, eng\<lparr>events := evs\<rparr>)
      | (None, evs) \<Rightarrow>
          (let sorted_evs = sort_key evt_time_s evs;
               d = (if sorted_evs \<noteq> []
                    then evt_time_s (last sorted_evs) + evt_duration_s (last sorted_evs)
                    else duration_s eng)
           in (Inr (), eng\<lparr>events := sorted_evs, duration_s := d, loaded := True\<rparr>)))"

subsection \<open>State queries\<close>

record snapshot =
  snap_time_s :: real
  snap_duration_s :: real
  progress :: real
  states :: "(string \<times> string) list"

definition get_snapshot :: "SpatEngine \<Rightarrow> snapshot" where
  "get_snapshot eng =
     \<lparr>snap_time_s = current_time eng,
      snap_duration_s = duration_s eng,
      progress = (if duration_s eng \<noteq> 0
                  then py_round_nd (current_time eng / duration_s eng * 100) 1 else 0),
      states = current_state eng\<rparr>"

text \<open>
  \<open>by_node\<close>, the dictionary of the events of each intersection: keys in the order of
  their first event, each list in the order of \<open>self.events\<close>.
\<close>

fun by_node_add :: "SpatEvent \<Rightarrow> (string \<times> SpatEvent list) list \<Rightarrow> (string \<times> SpatEvent list) list" where
  "by_node_add evt [] = [(intersection_id evt, [evt])]"
| "by_node_add evt ((k, es) # rest) =
     (if k = intersection_id evt then (k, es @ [evt]) # rest
      else (k, es) # by_node_add evt rest)"

definition by_node :: "SpatEvent list \<Rightarrow> (string \<times> SpatEvent list) list" where
  "by_node evs = fold by_node_add evs []"

text \<open>The inner loop: the phase of the first event that is active at \<open>t\<close>, else RED.\<close>

fun active_phase :: "real \<Rightarrow> SpatEvent list \<Rightarrow> string" where
  "active_phase t [] = ''RED''"
| "active_phase t (evt # evts) =
     (if evt_time_s evt \<le> t \<and> t < evt_time_s evt + evt_duration_s evt then phase evt
      else active_phase t evts)"

definition get_state_at :: "SpatEngine \<Rightarrow> real \<Rightarrow> (string \<times> string) list" where
  "get_state_at eng t = map (\<lambda>(node_id, evts). (node_id, active_phase t evts)) (by_node (events eng))"

subsection \<open>Replay\<close>

text \<open>
  \<open>replay\<close> is a generator. Its state between two calls of \<open>next\<close> is where it stands:
  not started, suspended at the \<open>yield\<close> with its local \<open>t\<close>, or finished (returned or
  raised). \<open>replay_next\<close> is one call of \<open>next\<close>: it runs the body up to the next
  \<open>yield\<close> and gives the snapshot (\<open>None\<close> when the generator is exhausted) or the
  exception, with the new state of the generator and of the engine. The sleep between two
  snapshots takes time and changes nothing else.
\<close>

datatype replay_gen = NotStarted | Suspended real | Finished

definition replay_body ::
  "real \<Rightarrow> SpatEngine \<Rightarrow> (py_error + snapshot option) \<times> replay_gen \<times> SpatEngine" where
  "replay_body t eng =
     (if t \<le> duration_s eng then
        (let state = get_state_at eng t;
             eng' = eng\<lparr>current_time := t, current_state := state\<rparr>
         in if duration_s eng = 0 then (Inl ZeroDivisionError, Finished, eng')
            else (Inr (Some \<lparr>snap_time_s = py_round_nd t 1,
                              snap_duration_s = duration_s eng,
                              progress = py_round_nd (t / duration_s eng * 100) 1,
                              states = state\<rparr>),
                  Suspended t, eng'))
      else (Inr None, Finished, eng))"

definition replay_next ::
  "(string \<Rightarrow> real option) \<Rightarrow> csv_row list \<Rightarrow> real \<Rightarrow> real \<Rightarrow> replay_gen \<times> SpatEngine
   \<Rightarrow> (py_error + snapshot option) \<times> replay_gen \<times> SpatEngine" where
  "replay_next float_of rows speed step_s g =
     (case g of
        (NotStarted, eng) \<Rightarrow>
          (case (if \<not> loaded eng then load float_of rows eng else (Inr (), eng)) of
             (Inl e, eng1) \<Rightarrow> (Inl e, Finished, eng1)
           | (Inr _, eng1) \<Rightarrow>
               if speed = 0 then (Inl ZeroDivisionError, Finished, eng1)
               else replay_body 0 eng1)
      | (Suspended t, eng) \<Rightarrow> replay_body (t + step_s) eng
      | (Finished, eng) \<Rightarrow> (Inr None, Finished, eng))"

text \<open>
  The consumer that pulls at most \<open>n\<close> snapshots (\<open>list(islice(gen, n))\<close>): it stops at
  the first exception and when the generator is exhausted.
\<close>

fun replay_take ::
  "(string \<Rightarrow> real option) \<Rightarrow> csv_row list \<Rightarrow> real \<Rightarrow> real \<Rightarrow> nat
   \<Rightarrow> replay_gen \<times> SpatEngine \<Rightarrow> (py_error + snapshot list) \<times> replay_gen \<times> SpatEngine" where
  "replay_take float_of rows speed step_s 0 g = (Inr [], g)"
| "replay_take float_of rows speed step_s (Suc n) g =
     (case replay_next float_of rows speed step_s g of
        (Inl e, g') \<Rightarrow> (Inl e, g')
      | (Inr None, g') \<Rightarrow> (Inr [], g')
      | (Inr (Some snap), g') \<Rightarrow>
          (case replay_take float_of rows speed step_s n g' of
             (Inl e, g'') \<Rightarrow> (Inl e, g'')
           | (Inr snaps, g'') \<Rightarrow> (Inr (snap # snaps), g'')))"

text \<open>The interval \<open>[start, start + duration)\<close> of an event contains \<open>t\<close>.\<close>

definition active_at :: "real \<Rightarrow> SpatEvent \<Rightarrow> bool" where
  "active_at t e = (evt_time_s e \<le> t \<and> t < evt_time_s e + evt_duration_s e)"

text \<open>A loaded engine with three events, two of them of \<open>INT_0\<close>.\<close>

definition sample_engine :: SpatEngine where
  "sample_engine =
     \<lparr>events =
        [\<lparr>evt_time_s = 0, intersection_id = ''INT_0'', phase = ''GREEN'', evt_duration_s = 40\<rparr>,
         \<lparr>evt_time_s = 0, intersection_id = ''INT_1'', phase = ''RED'', evt_duration_s = 45\<rparr>,
         \<lparr>evt_time_s = 40, intersection_id = ''INT_0'', phase = ''YELLOW'', evt_duration_s = 5\<rparr>],
      duration_s = 45, current_state = [], current_time = 0, loaded = True\<rparr>"

text \<open>
  A row whose time or duration field is missing (no such column, or no such field in the
  row) or not numeric.
\<close>

definition bad_number :: "(string \<Rightarrow> real option) \<Rightarrow> csv_row \<Rightarrow> string \<Rightarrow> bool" where
  "bad_number float_of row key =
     (case map_of row key of
        None \<Rightarrow> True
      | Some None \<Rightarrow> True
      | Some (Some s) \<Rightarrow> float_of s = None)"

definition bad_numeric :: "(string \<Rightarrow> real option) \<Rightarrow> csv_row \<Rightarrow> bool" where
  "bad_numeric float_of row =
     (bad_number float_of row ''time_s'' \<or> bad_number float_of row ''duration_s'')"

text \<open>
  \<open>float\<close> on the plain decimal numerals: blanks around an optional sign, digits and an
  optional fraction. Python's \<open>float\<close> reads more (exponents, \<open>inf\<close>, \<open>nan\<close>,
  underscores); the examples below stay inside this fragment or use text that no syntax
  of \<open>float\<close> accepts.
\<close>

definition is_digit :: "char \<Rightarrow> bool" where
  "is_digit c = (48 \<le> (of_char c :: nat) \<and> (of_char c :: nat) \<le> 57)"

definition digits_value :: "string \<Rightarrow> nat" where
  "digits_value s = foldl (\<lambda>a c. 10 * a + ((of_char c :: nat) - 48)) 0 s"

definition float_decimal :: "string \<Rightarrow> real option" where
  "float_decimal s =
     (let b = py_strip s;
          neg = (b \<noteq> [] \<and> hd b = CHR ''-'');
          u = (if b \<noteq> [] \<and> (hd b = CHR ''-'' \<or> hd b = CHR ''+'') then tl b else b);
          ip = takeWhile is_digit u;
          rest = dropWhile is_digit u;
          sgn = (if neg then - 1 else 1)
      in if rest = [] then
           (if ip = [] then None else Some (sgn * real (digits_value ip)))
         else if hd rest = CHR ''.'' \<and> list_all is_digit (tl rest)
                 \<and> (ip \<noteq> [] \<or> tl rest \<noteq> []) then
           Some (sgn * (real (digits_value ip)
                        + real (digits_value (tl rest)) / 10 ^ length (tl rest)))
         else None)"

text \<open>Two rows of a SPaT file: a well-formed one, and one whose duration is not a number.\<close>

definition good_row :: csv_row where
  "good_row =
     [(''time_s'', Some ''0''), (''intersection_id'', Some ''INT_0''),
      (''phase'', Some ''green''), (''duration_s'', Some ''40'')]"

definition bad_row :: csv_row where
  "bad_row =
     [(''time_s'', Some ''40''), (''intersection_id'', Some ''INT_0''),
      (''phase'', Some ''YELLOW''), (''duration_s'', Some ''abc'')]"

text \<open>A well-formed row: one event at time 0 that lasts 0 seconds.\<close>

definition zero_row :: csv_row where
  "zero_row =
     [(''time_s'', Some ''0''), (''intersection_id'', Some ''INT_0''),
      (''phase'', Some ''GREEN''), (''duration_s'', Some ''0'')]"

section \<open>Verified properties\<close>

subsection \<open>Corridor simulation\<close>

lemma py_int_nonneg: "0 \<le> x \<Longrightarrow> py_int x = \<lfloor>x\<rfloor>"
  by (simp add: py_int_def)

lemma green_time_lower: "0 \<le> q \<Longrightarrow> 25 \<le> green_time q"
  by (simp add: green_time_def py_int_def)

lemma green_time_upper: "green_time q \<le> 55"
  by (simp add: green_time_def)

lemma green_time_mono: "0 \<le> q1 \<Longrightarrow> q1 \<le> q2 \<Longrightarrow> green_time q1 \<le> green_time q2"
  by (auto simp: green_time_def py_int_def intro!: floor_mono min.coboundedI2)

lemma green_time_0: "green_time 0 = 25"
  by (simp add: green_time_def py_int_def)

lemma optimized_signal_0: "optimized_signal 0 0 0 = ''GREEN''"
  by (simp add: optimized_signal_def green_time_0 py_fmod_def)

lemma surge_nonneg: "0 \<le> 0.8 + 0.4 * sin (x::real)"
  using sin_ge_minus_one [of x] by linarith

lemma rush_nonneg: "0 \<le> 0.4 + 0.2 * sin (x::real)"
  using sin_ge_minus_one [of x] by linarith

lemma arrival_rate_nonneg: "0 \<le> arrival_rate t"
  unfolding arrival_rate_def using surge_nonneg rush_nonneg by simp

lemma baseline_node_queue: "0 \<le> arrivals \<Longrightarrow> 0 \<le> queue bs \<Longrightarrow> 0 \<le> queue (baseline_node t arrivals i bs)"
  by (simp add: baseline_node_def Let_def)

lemma optimized_node_queue: "0 \<le> arrivals \<Longrightarrow> 0 \<le> queue os \<Longrightarrow> 0 \<le> queue (optimized_node t arrivals i os)"
  by (simp add: optimized_node_def Let_def)

lemma queues_ok_update: "queues_ok ss \<Longrightarrow> 0 \<le> queue s \<Longrightarrow> queues_ok (ss[i := s])"
  unfolding queues_ok_def using set_update_subset_insert [of ss i s] by auto

lemma node_step_ok:
  assumes "0 \<le> arrivals" "queues_ok (b_states a)" "queues_ok (o_states a)"
    "i < length (b_states a)" "i < length (o_states a)"
  shows "queues_ok (b_states (node_step t arrivals i a)) \<and> queues_ok (o_states (node_step t arrivals i a))
    \<and> length (b_states (node_step t arrivals i a)) = length (b_states a)
    \<and> length (o_states (node_step t arrivals i a)) = length (o_states a)"
proof -
  have "0 \<le> queue (b_states a ! i)" "0 \<le> queue (o_states a ! i)"
    using assms by (simp_all add: queues_ok_def)
  then show ?thesis
    using assms by (simp add: node_step_def Let_def queues_ok_update baseline_node_queue optimized_node_queue)
qed

lemma fold_node_step_ok:
  assumes "0 \<le> arrivals"
  shows "queues_ok (b_states a) \<Longrightarrow> queues_ok (o_states a) \<Longrightarrow>
     \<forall>i \<in> set is. i < length (b_states a) \<and> i < length (o_states a) \<Longrightarrow>
     queues_ok (b_states (fold (node_step t arrivals) is a)) \<and>
     queues_ok (o_states (fold (node_step t arrivals) is a)) \<and>
     length (b_states (fold (node_step t arrivals) is a)) = length (b_states a) \<and>
     length (o_states (fold (node_step t arrivals) is a)) = length (o_states a)"
proof (induction "is" arbitrary: a)
  case Nil
  then show ?case by simp
next
  case (Cons i "is")
  have s: "queues_ok (b_states (node_step t arrivals i a)) \<and> queues_ok (o_states (node_step t arrivals i a))
    \<and> length (b_states (node_step t arrivals i a)) = length (b_states a)
    \<and> length (o_states (node_step t arrivals i a)) = length (o_states a)"
    using node_step_ok [OF assms, of a i t] Cons.prems by simp
  then show ?case
    using Cons.IH [of "node_step t arrivals i a"] Cons.prems by simp
qed

lemma tick_ok:
  assumes "queues_ok bss" "queues_ok oss" "length bss = length CORRIDOR" "length oss = length CORRIDOR"
  shows "queues_ok (b_states (tick t bss oss)) \<and> queues_ok (o_states (tick t bss oss)) \<and>
     length (b_states (tick t bss oss)) = length CORRIDOR \<and>
     length (o_states (tick t bss oss)) = length CORRIDOR"
proof -
  have "0 \<le> arrival_rate t * DT"
    using arrival_rate_nonneg [of t] by (simp add: DT_def)
  from fold_node_step_ok [OF this, of "\<lparr>b_states = bss, o_states = oss,
        b_total_q = 0, b_total_d = 0, o_total_q = 0, o_total_d = 0\<rparr>" "[0 ..< length CORRIDOR]" t]
  show ?thesis using assms by (simp add: tick_def)
qed

lemma sim_states_ok:
  "queues_ok bss \<Longrightarrow> queues_ok oss \<Longrightarrow> length bss = length CORRIDOR \<Longrightarrow> length oss = length CORRIDOR \<Longrightarrow>
   (t', bss', oss') \<in> set (sim_states d t bss oss) \<Longrightarrow>
   queues_ok bss' \<and> queues_ok oss' \<and> length bss' = length CORRIDOR \<and> length oss' = length CORRIDOR"
proof (induction d t bss oss rule: sim_states.induct)
  case (1 d t bss oss)
  show ?case
  proof (cases "t \<le> d")
    case True
    let ?a = "tick t bss oss"
    have ok: "queues_ok (b_states ?a) \<and> queues_ok (o_states ?a) \<and>
      length (b_states ?a) = length CORRIDOR \<and> length (o_states ?a) = length CORRIDOR"
      using tick_ok "1.prems" by simp
    from "1.prems"(5) True
    have "(t', bss', oss') = (t, b_states ?a, o_states ?a) \<or>
          (t', bss', oss') \<in> set (sim_states d (t + DT) (b_states ?a) (o_states ?a))"
      by (subst (asm) sim_states.simps) (simp add: Let_def)
    then show ?thesis
    proof
      assume "(t', bss', oss') = (t, b_states ?a, o_states ?a)"
      then show ?thesis using ok by simp
    next
      assume "(t', bss', oss') \<in> set (sim_states d (t + DT) (b_states ?a) (o_states ?a))"
      then show ?thesis using "1.IH" [OF True refl] ok by simp
    qed
  next
    case False
    then show ?thesis using "1.prems"(5) by (subst (asm) sim_states.simps) simp
  qed
qed

lemma sim_states_stop: "\<not> t \<le> d \<Longrightarrow> sim_states d t bss oss = []"
  by (subst sim_states.simps) simp

lemma sim_states_go:
  "t \<le> d \<Longrightarrow> sim_states d t bss oss =
     (t, b_states (tick t bss oss), o_states (tick t bss oss))
     # sim_states d (t + DT) (b_states (tick t bss oss)) (o_states (tick t bss oss))"
  by (subst sim_states.simps) (simp add: Let_def)

lemma sim_loop_stop: "\<not> t \<le> d \<Longrightarrow> sim_loop d t s = s"
  by (subst sim_loop.simps) simp

lemma sim_loop_go:
  "t \<le> d \<Longrightarrow> sim_loop d t s =
     sim_loop d (t + DT)
       \<lparr>baseline_states = b_states (tick t (baseline_states s) (optimized_states s)),
        optimized_states = o_states (tick t (baseline_states s) (optimized_states s)),
        baseline_series = baseline_series s @
          [mk_record t (b_total_q (tick t (baseline_states s) (optimized_states s)))
                       (b_total_d (tick t (baseline_states s) (optimized_states s)))],
        optimized_series = optimized_series s @
          [mk_record t (o_total_q (tick t (baseline_states s) (optimized_states s)))
                       (o_total_d (tick t (baseline_states s) (optimized_states s)))]\<rparr>"
  by (subst sim_loop.simps) (simp add: Let_def)

lemma floor_step: "\<lfloor>(d - (t + 5)) / 5\<rfloor> = \<lfloor>(d - t) / 5\<rfloor> - 1" for d t :: real
proof -
  have "(d - (t + 5)) / 5 = (d - t) / 5 - 1" by argo
  then show ?thesis by (simp only: floor_diff_one)
qed

lemma sim_states_times:
  "map fst (sim_states d t bss oss) =
     (if t \<le> d then map (\<lambda>k. t + 5 * real k) [0 ..< nat (\<lfloor>(d - t) / 5\<rfloor> + 1)] else [])"
proof (induction d t bss oss rule: sim_states.induct)
  case (1 d t bss oss)
  show ?case
  proof (cases "t \<le> d")
    case False
    then show ?thesis by (simp add: sim_states_stop)
  next
    case True
    let ?a = "tick t bss oss"
    let ?n = "nat (\<lfloor>(d - t) / 5\<rfloor> + 1)"
    have nn: "0 \<le> \<lfloor>(d - t) / 5\<rfloor>" using True by simp
    have IH: "map fst (sim_states d (t + DT) (b_states ?a) (o_states ?a)) =
      (if t + DT \<le> d then map (\<lambda>k. t + DT + 5 * real k) [0 ..< nat (\<lfloor>(d - (t + DT)) / 5\<rfloor> + 1)] else [])"
      using "1.IH" [OF True refl] .
    have rest: "map fst (sim_states d (t + DT) (b_states ?a) (o_states ?a)) =
      map (\<lambda>k. t + 5 * real k) [1 ..< ?n]"
    proof (cases "t + 5 \<le> d")
      case le: True
      have n1: "nat (\<lfloor>(d - (t + 5)) / 5\<rfloor> + 1) = ?n - 1"
        using floor_step [of d t] nn by simp
      have "map (\<lambda>k. t + 5 + 5 * real k) [0 ..< ?n - 1] = map (\<lambda>k. t + 5 * real k) (map Suc [0 ..< ?n - 1])"
        by (simp add: algebra_simps)
      also have "map Suc [0 ..< ?n - 1] = [1 ..< ?n]"
        using nn by (simp add: map_Suc_upt)
      finally show ?thesis using IH le n1 by (simp add: DT_def)
    next
      case gt: False
      then have "(d - t) / 5 < 1" by simp
      then have "\<lfloor>(d - t) / 5\<rfloor> < 1" by linarith
      with nn have "\<lfloor>(d - t) / 5\<rfloor> = 0" by linarith
      then have "?n = 1" by simp
      then show ?thesis using IH gt by (simp add: DT_def)
    qed
    have "[0 ..< ?n] = 0 # [1 ..< ?n]"
      using nn by (simp add: upt_conv_Cons)
    then show ?thesis
      using True rest by (simp add: sim_states_go)
  qed
qed

lemma sim_loop_times:
  "map time_s (baseline_series (sim_loop d t s)) =
     map time_s (baseline_series s) @
     map (\<lambda>x. py_round (fst x)) (sim_states d t (baseline_states s) (optimized_states s)) \<and>
   map time_s (optimized_series (sim_loop d t s)) =
     map time_s (optimized_series s) @
     map (\<lambda>x. py_round (fst x)) (sim_states d t (baseline_states s) (optimized_states s))"
proof (induction d t s rule: sim_loop.induct)
  case (1 d t s)
  show ?case
  proof (cases "t \<le> d")
    case False
    then show ?thesis
      by (simp add: sim_loop_stop sim_states_stop)
  next
    case True
    show ?thesis
      using "1.IH" [OF True refl] True
      by (simp add: sim_loop_go sim_states_go mk_record_def Let_def)
  qed
qed

text \<open>
  \<open>sim_states\<close> lists the states of \<open>sim_loop\<close>: the loop ends in the last state of
  the list.
\<close>

lemma sim_loop_final_states:
  "(baseline_states (sim_loop d t s), optimized_states (sim_loop d t s)) =
     (case sim_states d t (baseline_states s) (optimized_states s) of
        [] \<Rightarrow> (baseline_states s, optimized_states s)
      | x # xs \<Rightarrow> snd (last (x # xs)))"
proof (induction d t s rule: sim_loop.induct)
  case (1 d t s)
  show ?case
  proof (cases "t \<le> d")
    case False
    then show ?thesis
      by (simp add: sim_loop_stop sim_states_stop)
  next
    case True
    let ?a = "tick t (baseline_states s) (optimized_states s)"
    let ?s = "\<lparr>baseline_states = b_states ?a, optimized_states = o_states ?a,
        baseline_series = baseline_series s @ [mk_record t (b_total_q ?a) (b_total_d ?a)],
        optimized_series = optimized_series s @ [mk_record t (o_total_q ?a) (o_total_d ?a)]\<rparr>"
    have IH: "(baseline_states (sim_loop d (t + DT) ?s), optimized_states (sim_loop d (t + DT) ?s)) =
     (case sim_states d (t + DT) (b_states ?a) (o_states ?a) of
        [] \<Rightarrow> (b_states ?a, o_states ?a)
      | x # xs \<Rightarrow> snd (last (x # xs)))"
      using "1.IH" [OF True refl] by (simp only: sim_state.select_convs)
    have l: "sim_loop d t s = sim_loop d (t + DT) ?s"
      using True by (simp add: sim_loop_go)
    have g: "sim_states d t (baseline_states s) (optimized_states s) =
        (t, b_states ?a, o_states ?a) # sim_states d (t + DT) (b_states ?a) (o_states ?a)"
      using True by (simp add: sim_states_go)
    show ?thesis
      unfolding l g using IH
      by (cases "sim_states d (t + DT) (b_states ?a) (o_states ?a)") simp_all
  qed
qed

lemma py_round_of_int: "py_round (of_int n) = n"
  by (simp add: py_round_def)

lemma py_round_tick: "py_round (5 * real k) = 5 * int k"
proof -
  have "5 * real k = of_int (5 * int k)" by simp
  then show ?thesis by (simp only: py_round_of_int)
qed

text \<open>
  The ticks the loop visits are \<open>0, 5, 10, \<dots>\<close> up to the duration, and the loop appends
  one record per tick to each series, stamped with the rounded tick.
\<close>

lemma run_states_times:
  "0 \<le> d \<Longrightarrow> map fst (run_states d) = map (\<lambda>k. 5 * real k) [0 ..< nat (\<lfloor>d / 5\<rfloor> + 1)]"
  unfolding run_states_def by (simp add: sim_states_times)

lemma run_300_times:
  "map (\<lambda>x. py_round (fst x)) (run_states 300) = map (\<lambda>k. 5 * int k) [0 ..< 61]"
proof -
  have "map fst (run_states 300) = map (\<lambda>k. 5 * real k) [0 ..< 61]"
    by (simp add: run_states_times)
  moreover have "map (\<lambda>x. py_round (fst x)) (run_states 300) = map py_round (map fst (run_states 300))"
    by (simp add: comp_def)
  ultimately have "map (\<lambda>x. py_round (fst x)) (run_states 300) = map py_round (map (\<lambda>k. 5 * real k) [0 ..< 61])"
    by (simp only:)
  also have "\<dots> = map (\<lambda>k. 5 * int k) [0 ..< 61]"
    unfolding map_map comp_def py_round_tick ..
  finally show ?thesis .
qed

text \<open>
  C8. For every queue depth \<open>q \<ge> 0\<close> the green duration of the adaptive plan,
  \<open>min(55, 25 + int(0.6 q))\<close>, lies between 25 and 55; it is non-decreasing in the queue
  depth; and at time 0, node 0 and an empty queue the plan shows GREEN with a green
  duration of 25.
\<close>

theorem green_time_bounded_monotone:
  "(\<forall>q. 0 \<le> q \<longrightarrow> 25 \<le> green_time q \<and> green_time q \<le> 55) \<and>
   (\<forall>q1 q2. 0 \<le> q1 \<and> q1 \<le> q2 \<longrightarrow> green_time q1 \<le> green_time q2) \<and>
   optimized_signal 0 0 0 = ''GREEN'' \<and> green_time 0 = 25"
  using green_time_lower green_time_upper green_time_mono green_time_0 optimized_signal_0
  by blast

theorem green_time_bounded_monotone_witness:
  "(0::real) \<le> 10 \<and> (10::real) \<le> 100 \<and>
   green_time 10 = 31 \<and> green_time 100 = 55 \<and>
   25 \<le> green_time 10 \<and> green_time 10 \<le> 55 \<and> green_time 10 \<le> green_time 100"
proof -
  have h: "(0::real) \<le> 10 \<and> (10::real) \<le> 100" by simp
  have v: "green_time 10 = 31 \<and> green_time 100 = 55"
    by (simp add: green_time_def py_int_def)
  from green_time_bounded_monotone h
  have "25 \<le> green_time 10 \<and> green_time 10 \<le> 55 \<and> green_time 10 \<le> green_time 100"
    by blast
  with h v show ?thesis by blast
qed

text \<open>
  C4. \<open>run_comparison\<close> with a duration of 300 returns 61 records in the baseline series
  and 61 in the optimized series, stamped \<open>0, 5, 10, \<dots>, 300\<close> in this order.
\<close>

theorem run_comparison_300_records:
  "\<exists>r. run_comparison 300 = Inr r \<and>
     length (baseline r) = 61 \<and> length (optimized r) = 61 \<and>
     map time_s (baseline r) = map (\<lambda>k. 5 * int k) [0 ..< 61] \<and>
     map time_s (optimized r) = map (\<lambda>k. 5 * int k) [0 ..< 61]"
proof -
  define s0 where "s0 = \<lparr>baseline_states = replicate (length CORRIDOR) NodeState0,
     optimized_states = replicate (length CORRIDOR) NodeState0,
     baseline_series = [], optimized_series = []\<rparr>"
  define s where "s = sim_loop 300 0 s0"
  have tb: "map time_s (baseline_series s) = map (\<lambda>k. 5 * int k) [0 ..< 61]"
    and to: "map time_s (optimized_series s) = map (\<lambda>k. 5 * int k) [0 ..< 61]"
    using sim_loop_times [of 300 0 s0] run_300_times
    by (simp_all add: s_def s0_def run_states_def)
  have lb: "length (baseline_series s) = 61"
    using arg_cong [OF tb, of length] by simp
  have lo: "length (optimized_series s) = 61"
    using arg_cong [OF to, of length] by simp
  have ne: "baseline_series s \<noteq> []" "optimized_series s \<noteq> []"
    using lb lo by auto
  obtain r where r: "run_comparison 300 = Inr r" "baseline r = baseline_series s"
    "optimized r = optimized_series s"
    using ne by (simp add: run_comparison_def Let_def s_def s0_def)
  show ?thesis
    using r tb to lb lo by (intro exI [of _ r]) simp
qed

text \<open>
  C3. For every duration \<open>\<ge> 0\<close>, at every tick of the run and for every corridor
  intersection, the queue of the baseline state and the queue of the optimized state are
  non-negative. The run starts from empty queues; the arrival rate is non-negative at
  every time (\<open>arrival_rate_nonneg\<close>). \<open>run_states\<close> holds the states of the loop of
  \<open>run_comparison\<close> after each of its ticks (\<open>run_states_times\<close>,
  \<open>sim_loop_final_states\<close>).
\<close>

theorem queue_depth_never_negative:
  "0 \<le> d \<Longrightarrow> (t, bss, oss) \<in> set (run_states d) \<Longrightarrow>
   i < length CORRIDOR \<Longrightarrow>
   length bss = length CORRIDOR \<and> length oss = length CORRIDOR \<and>
   0 \<le> queue (bss ! i) \<and> 0 \<le> queue (oss ! i)"
proof -
  assume mem: "(t, bss, oss) \<in> set (run_states d)" and i: "i < length CORRIDOR"
  have "queues_ok (replicate (length CORRIDOR) NodeState0)"
    by (simp add: queues_ok_def NodeState0_def)
  then have "queues_ok bss \<and> queues_ok oss \<and>
     length bss = length CORRIDOR \<and> length oss = length CORRIDOR"
    using sim_states_ok [of "replicate (length CORRIDOR) NodeState0"
        "replicate (length CORRIDOR) NodeState0" t bss oss d 0] mem
    by (simp add: run_states_def)
  then show ?thesis
    using i by (simp add: queues_ok_def)
qed

theorem queue_depth_never_negative_witness:
  "(0::real) \<le> 0 \<and> run_states 0 \<noteq> [] \<and> (0::nat) < length CORRIDOR \<and>
   0 \<le> queue (fst (snd (hd (run_states 0))) ! 0) \<and>
   0 \<le> queue (snd (snd (hd (run_states 0))) ! 0)"
proof -
  have ne: "run_states 0 \<noteq> []"
    by (simp add: run_states_def sim_states_go)
  obtain t bss oss where e: "hd (run_states 0) = (t, bss, oss)"
    by (cases "hd (run_states 0)") auto
  have mem: "(t, bss, oss) \<in> set (run_states 0)"
    using ne e by (metis hd_in_set)
  have i: "(0::nat) < length CORRIDOR"
    by (simp add: CORRIDOR_def)
  from queue_depth_never_negative [OF order_refl mem i]
  show ?thesis using ne e i by simp
qed

subsection \<open>SPaT replay engine\<close>

lemma by_node_add_lookup:
  "map_of (by_node_add evt g) n =
     (if n = intersection_id evt
      then Some ((case map_of g n of None \<Rightarrow> [] | Some es \<Rightarrow> es) @ [evt])
      else map_of g n)"
  by (induction evt g rule: by_node_add.induct) auto

lemma by_node_add_keys:
  "map fst (by_node_add evt g) =
     (if intersection_id evt \<in> set (map fst g) then map fst g
      else map fst g @ [intersection_id evt])"
  by (induction evt g rule: by_node_add.induct) auto

lemma fold_by_node_add_lookup:
  "map_of (fold by_node_add evs g) n =
     (case map_of g n of
        None \<Rightarrow> (if filter (\<lambda>e. intersection_id e = n) evs = [] then None
                  else Some (filter (\<lambda>e. intersection_id e = n) evs))
      | Some es \<Rightarrow> Some (es @ filter (\<lambda>e. intersection_id e = n) evs))"
proof (induction evs arbitrary: g)
  case Nil
  then show ?case by (simp split: option.splits)
next
  case (Cons e evs)
  show ?case
    by (simp add: Cons.IH by_node_add_lookup split: option.splits)
qed

lemma fold_by_node_add_keys:
  "set (map fst (fold by_node_add evs g)) = set (map fst g) \<union> intersection_id ` set evs"
proof (induction evs arbitrary: g)
  case Nil
  then show ?case by simp
next
  case (Cons e evs)
  show ?case
    by (simp only: fold_simps Cons.IH by_node_add_keys) auto
qed

lemma fold_by_node_add_distinct:
  "distinct (map fst g) \<Longrightarrow> distinct (map fst (fold by_node_add evs g))"
proof (induction evs arbitrary: g)
  case Nil
  then show ?case by simp
next
  case (Cons e evs)
  have "distinct (map fst (by_node_add e g))"
    using Cons.prems by (simp add: by_node_add_keys)
  then show ?case
    using Cons.IH by simp
qed

lemma by_node_lookup:
  "map_of (by_node evs) n =
     (if n \<in> intersection_id ` set evs then Some (filter (\<lambda>e. intersection_id e = n) evs) else None)"
proof -
  have "(filter (\<lambda>e. intersection_id e = n) evs = []) = (n \<notin> intersection_id ` set evs)"
    by (auto simp: filter_empty_conv)
  then show ?thesis
    by (simp add: by_node_def fold_by_node_add_lookup)
qed

lemma get_state_at_keys: "map fst (get_state_at eng t) = map fst (by_node (events eng))"
  by (simp add: get_state_at_def case_prod_unfold comp_def)

lemma get_state_at_lookup:
  "map_of (get_state_at eng t) n = map_option (active_phase t) (map_of (by_node (events eng)) n)"
  by (simp add: get_state_at_def map_of_map)

lemma active_phase_none:
  "\<forall>e \<in> set es. \<not> (evt_time_s e \<le> t \<and> t < evt_time_s e + evt_duration_s e) \<Longrightarrow>
   active_phase t es = ''RED''"
  by (induction es) auto

lemma active_phase_same:
  assumes "e \<in> set es"
    and "evt_time_s e \<le> t \<and> t < evt_time_s e + evt_duration_s e"
    and "\<forall>e' \<in> set es. evt_time_s e' \<le> t \<and> t < evt_time_s e' + evt_duration_s e' \<longrightarrow> e' = e"
  shows "active_phase t es = phase e"
  using assms
proof (induction es)
  case Nil
  then show ?case by simp
next
  case (Cons x xs)
  show ?case
  proof (cases "evt_time_s x \<le> t \<and> t < evt_time_s x + evt_duration_s x")
    case True
    then have "x = e" using Cons.prems(3) by simp
    then show ?thesis using True by simp
  next
    case False
    then have "e \<in> set xs" using Cons.prems(1,2) by auto
    moreover have "\<forall>e' \<in> set xs. evt_time_s e' \<le> t \<and> t < evt_time_s e' + evt_duration_s e' \<longrightarrow> e' = e"
      using Cons.prems(3) by simp
    ultimately have "active_phase t xs = phase e"
      using Cons.IH Cons.prems(2) by blast
    then show ?thesis using False by auto
  qed
qed

text \<open>
  C10. At every time \<open>t\<close> the keys of the dictionary that \<open>get_state_at\<close> returns are
  exactly the intersection ids that occur in a loaded event (each once): an intersection
  with no event has no entry at all, not even the RED default.
\<close>

theorem get_state_at_keys_are_event_ids:
  "set (map fst (get_state_at eng t)) = intersection_id ` set (events eng) \<and>
   distinct (map fst (get_state_at eng t))"
  using fold_by_node_add_keys [of "events eng" "[]"] fold_by_node_add_distinct [of "[]" "events eng"]
  by (simp add: get_state_at_keys by_node_def)

lemma state_lookup_filter:
  assumes "n \<in> intersection_id ` set (events eng)"
  shows "map_of (get_state_at eng t) n =
     Some (active_phase t (filter (\<lambda>e. intersection_id e = n) (events eng)))"
  using assms by (simp add: get_state_at_lookup by_node_lookup)

lemma state_lookup_unique:
  assumes n: "n \<in> intersection_id ` set (events eng)"
    and e: "e \<in> set (events eng)" "intersection_id e = n" "active_at t e"
    and u: "\<forall>e' \<in> set (events eng). intersection_id e' = n \<and> active_at t e' \<longrightarrow> e' = e"
  shows "map_of (get_state_at eng t) n = Some (phase e)"
proof -
  let ?es = "filter (\<lambda>e. intersection_id e = n) (events eng)"
  have 1: "e \<in> set ?es" using e by simp
  have 2: "evt_time_s e \<le> t \<and> t < evt_time_s e + evt_duration_s e"
    using e(3) by (simp add: active_at_def)
  have 3: "\<forall>e' \<in> set ?es. evt_time_s e' \<le> t \<and> t < evt_time_s e' + evt_duration_s e' \<longrightarrow> e' = e"
  proof
    fix e' assume "e' \<in> set ?es"
    then have "e' \<in> set (events eng)" "intersection_id e' = n" by simp_all
    then show "evt_time_s e' \<le> t \<and> t < evt_time_s e' + evt_duration_s e' \<longrightarrow> e' = e"
      using u unfolding active_at_def by blast
  qed
  have "active_phase t ?es = phase e"
    by (rule active_phase_same [OF 1 2 3])
  then show ?thesis
    by (simp only: state_lookup_filter [OF n])
qed

lemma state_lookup_none:
  assumes n: "n \<in> intersection_id ` set (events eng)"
    and u: "\<forall>e \<in> set (events eng). intersection_id e = n \<longrightarrow> \<not> active_at t e"
  shows "map_of (get_state_at eng t) n = Some ''RED''"
proof -
  let ?es = "filter (\<lambda>e. intersection_id e = n) (events eng)"
  have "\<forall>e \<in> set ?es. \<not> (evt_time_s e \<le> t \<and> t < evt_time_s e + evt_duration_s e)"
  proof
    fix e assume "e \<in> set ?es"
    then have "e \<in> set (events eng)" "intersection_id e = n" by simp_all
    then show "\<not> (evt_time_s e \<le> t \<and> t < evt_time_s e + evt_duration_s e)"
      using u unfolding active_at_def by blast
  qed
  then have "active_phase t ?es = ''RED''"
    by (rule active_phase_none)
  then show ?thesis
    by (simp only: state_lookup_filter [OF n])
qed

text \<open>
  C6. For an intersection with at least one loaded event, \<open>get_state_at\<close> at time \<open>t\<close>
  gives the phase of the event of that intersection whose interval
  \<open>[start, start + duration)\<close> contains \<open>t\<close>; it gives RED when no event of the
  intersection contains \<open>t\<close>, in particular when \<open>t\<close> lies before the start of each of
  its events.
\<close>

theorem get_state_at_phase:
  assumes "n \<in> intersection_id ` set (events eng)"
  shows
    "(\<forall>e \<in> set (events eng).
        intersection_id e = n \<and> active_at t e \<and>
        (\<forall>e' \<in> set (events eng). intersection_id e' = n \<and> active_at t e' \<longrightarrow> e' = e)
        \<longrightarrow> map_of (get_state_at eng t) n = Some (phase e)) \<and>
     ((\<forall>e \<in> set (events eng). intersection_id e = n \<longrightarrow> \<not> active_at t e)
        \<longrightarrow> map_of (get_state_at eng t) n = Some ''RED'') \<and>
     ((\<forall>e \<in> set (events eng). intersection_id e = n \<longrightarrow> t < evt_time_s e)
        \<longrightarrow> map_of (get_state_at eng t) n = Some ''RED'')"
proof (intro conjI ballI impI)
  fix e
  assume "e \<in> set (events eng)"
    and "intersection_id e = n \<and> active_at t e \<and>
        (\<forall>e' \<in> set (events eng). intersection_id e' = n \<and> active_at t e' \<longrightarrow> e' = e)"
  then show "map_of (get_state_at eng t) n = Some (phase e)"
    using state_lookup_unique [OF assms, of e t] by blast
next
  assume "\<forall>e \<in> set (events eng). intersection_id e = n \<longrightarrow> \<not> active_at t e"
  then show "map_of (get_state_at eng t) n = Some ''RED''"
    by (rule state_lookup_none [OF assms])
next
  assume b: "\<forall>e \<in> set (events eng). intersection_id e = n \<longrightarrow> t < evt_time_s e"
  have "\<forall>e \<in> set (events eng). intersection_id e = n \<longrightarrow> \<not> active_at t e"
  proof (intro ballI impI)
    fix e assume "e \<in> set (events eng)" "intersection_id e = n"
    then have "t < evt_time_s e" using b by blast
    then show "\<not> active_at t e" by (simp add: active_at_def)
  qed
  then show "map_of (get_state_at eng t) n = Some ''RED''"
    by (rule state_lookup_none [OF assms])
qed

theorem get_state_at_phase_witness:
  "''INT_0'' \<in> intersection_id ` set (events sample_engine) \<and>
   map_of (get_state_at sample_engine 42) ''INT_0'' = Some ''YELLOW'' \<and>
   map_of (get_state_at sample_engine 47) ''INT_0'' = Some ''RED'' \<and>
   map_of (get_state_at sample_engine (- 1)) ''INT_0'' = Some ''RED''"
proof -
  have n: "''INT_0'' \<in> intersection_id ` set (events sample_engine)"
    by (simp add: sample_engine_def)
  define y where "y = \<lparr>evt_time_s = 40, intersection_id = ''INT_0'', phase = ''YELLOW'', evt_duration_s = 5\<rparr>"
  have ymem: "y \<in> set (events sample_engine)"
    by (simp add: sample_engine_def y_def)
  have yhyp: "intersection_id y = ''INT_0'' \<and> active_at 42 y \<and>
      (\<forall>e' \<in> set (events sample_engine). intersection_id e' = ''INT_0'' \<and> active_at 42 e' \<longrightarrow> e' = y)"
    by (simp add: sample_engine_def y_def active_at_def)
  have gap: "\<forall>e \<in> set (events sample_engine). intersection_id e = ''INT_0'' \<longrightarrow> \<not> active_at 47 e"
    by (simp add: sample_engine_def active_at_def)
  have early: "\<forall>e \<in> set (events sample_engine). intersection_id e = ''INT_0'' \<longrightarrow> - 1 < evt_time_s e"
    by (simp add: sample_engine_def)
  have a: "map_of (get_state_at sample_engine 42) ''INT_0'' = Some (phase y)"
    using get_state_at_phase [OF n, of 42] ymem yhyp by blast
  have b: "map_of (get_state_at sample_engine 47) ''INT_0'' = Some ''RED''"
    using get_state_at_phase [OF n, of 47] gap by blast
  have c: "map_of (get_state_at sample_engine (- 1)) ''INT_0'' = Some ''RED''"
    using get_state_at_phase [OF n, of "- 1"] early by blast
  have "phase y = ''YELLOW''" by (simp add: y_def)
  with n a b c show ?thesis by simp
qed

lemma parse_good: "parse_row float_decimal good_row =
   Inr \<lparr>evt_time_s = 0, intersection_id = ''INT_0'', phase = ''GREEN'', evt_duration_s = 40\<rparr>"
  by (simp add: parse_row_def good_row_def float_decimal_def py_strip_def is_space_def
      is_digit_def digits_value_def py_upper_def upper_char_def)

lemma parse_bad: "parse_row float_decimal bad_row = Inl ValueError"
  by (simp add: parse_row_def bad_row_def float_decimal_def py_strip_def is_space_def
      is_digit_def digits_value_def py_upper_def upper_char_def)

lemma bad_row_bad: "bad_numeric float_decimal bad_row"
  by (simp add: bad_numeric_def bad_number_def bad_row_def float_decimal_def py_strip_def is_space_def
      is_digit_def digits_value_def)

lemma parse_row_bad_numeric:
  "bad_numeric float_of row \<Longrightarrow> \<exists>e. parse_row float_of row = Inl e"
  by (auto simp: bad_numeric_def bad_number_def parse_row_def split: option.splits)

lemma load_rows_ok:
  "\<forall>r \<in> set rows. \<exists>evt. parse_row float_of r = Inr evt \<Longrightarrow>
   load_rows float_of rows acc = (None, acc @ map (\<lambda>r. projr (parse_row float_of r)) rows)"
proof (induction rows arbitrary: acc)
  case Nil
  then show ?case by simp
next
  case (Cons r rows)
  then obtain evt where "parse_row float_of r = Inr evt" by auto
  then show ?case using Cons by simp
qed

lemma load_rows_fail:
  "\<exists>r \<in> set rows. \<exists>e. parse_row float_of r = Inl e \<Longrightarrow>
   \<exists>k e. k < length rows \<and> parse_row float_of (rows ! k) = Inl e \<and>
     (\<forall>j < k. \<exists>evt. parse_row float_of (rows ! j) = Inr evt) \<and>
     load_rows float_of rows acc =
       (Some e, acc @ map (\<lambda>r. projr (parse_row float_of r)) (take k rows))"
proof (induction rows arbitrary: acc)
  case Nil
  then show ?case by simp
next
  case (Cons r rows)
  show ?case
  proof (cases "parse_row float_of r")
    case (Inl e)
    then have "0 < length (r # rows) \<and> parse_row float_of ((r # rows) ! 0) = Inl e \<and>
       (\<forall>j < 0. \<exists>evt. parse_row float_of ((r # rows) ! j) = Inr evt) \<and>
       load_rows float_of (r # rows) acc =
         (Some e, acc @ map (\<lambda>r. projr (parse_row float_of r)) (take 0 (r # rows)))"
      by simp
    then show ?thesis by blast
  next
    case (Inr evt)
    then have "\<exists>r \<in> set rows. \<exists>e. parse_row float_of r = Inl e"
      using Cons.prems by auto
    from Cons.IH [OF this, of "acc @ [evt]"]
    obtain k e where k: "k < length rows" "parse_row float_of (rows ! k) = Inl e"
      "\<forall>j < k. \<exists>evt. parse_row float_of (rows ! j) = Inr evt"
      "load_rows float_of rows (acc @ [evt]) =
         (Some e, (acc @ [evt]) @ map (\<lambda>r. projr (parse_row float_of r)) (take k rows))"
      by blast
    have "\<forall>j < Suc k. \<exists>evt. parse_row float_of ((r # rows) ! j) = Inr evt"
    proof (intro allI impI)
      fix j assume "j < Suc k"
      then show "\<exists>evt. parse_row float_of ((r # rows) ! j) = Inr evt"
        using k(3) Inr by (cases j) auto
    qed
    then have "Suc k < length (r # rows) \<and> parse_row float_of ((r # rows) ! Suc k) = Inl e \<and>
       (\<forall>j < Suc k. \<exists>evt. parse_row float_of ((r # rows) ! j) = Inr evt) \<and>
       load_rows float_of (r # rows) acc =
         (Some e, acc @ map (\<lambda>r. projr (parse_row float_of r)) (take (Suc k) (r # rows)))"
      using k Inr by simp
    then show ?thesis by blast
  qed
qed

text \<open>
  C7, as the code has it. When a row of the source has a missing or non-numeric time or
  duration field, \<open>load\<close> raises at the first row that cannot be parsed and reads no
  row after it. The duration and the loaded flag of the engine are as before the call,
  but the event list is not: it holds the events of the rows before the failing one, in
  file order.
\<close>

theorem load_fails_at_first_bad_row:
  assumes "\<exists>row \<in> set rows. bad_numeric float_of row"
  shows "\<exists>k e. k < length rows \<and> parse_row float_of (rows ! k) = Inl e \<and>
     (\<forall>j < k. \<exists>evt. parse_row float_of (rows ! j) = Inr evt) \<and>
     load float_of rows eng =
       (Inl e, eng\<lparr>events := map (\<lambda>r. projr (parse_row float_of r)) (take k rows)\<rparr>)"
proof -
  have "\<exists>r \<in> set rows. \<exists>e. parse_row float_of r = Inl e"
    using assms parse_row_bad_numeric by blast
  from load_rows_fail [OF this, of "[]"]
  obtain k e where k: "k < length rows" "parse_row float_of (rows ! k) = Inl e"
    "\<forall>j < k. \<exists>evt. parse_row float_of (rows ! j) = Inr evt"
    "load_rows float_of rows [] =
       (Some e, [] @ map (\<lambda>r. projr (parse_row float_of r)) (take k rows))"
    by blast
  have "load float_of rows eng =
       (Inl e, eng\<lparr>events := map (\<lambda>r. projr (parse_row float_of r)) (take k rows)\<rparr>)"
    using k(4) by (simp add: load_def)
  with k(1-3) show ?thesis by blast
qed

theorem load_fails_at_first_bad_row_witness:
  "(\<exists>row \<in> set [good_row, bad_row]. bad_numeric float_decimal row) \<and>
   (\<exists>e. fst (load float_decimal [good_row, bad_row] new_engine) = Inl e) \<and>
   duration_s (snd (load float_decimal [good_row, bad_row] new_engine)) = duration_s new_engine \<and>
   loaded (snd (load float_decimal [good_row, bad_row] new_engine)) = loaded new_engine"
proof -
  have h: "\<exists>row \<in> set [good_row, bad_row]. bad_numeric float_decimal row"
    using bad_row_bad by simp
  from load_fails_at_first_bad_row [OF h, of new_engine]
  obtain k e where "load float_decimal [good_row, bad_row] new_engine =
       (Inl e, new_engine\<lparr>events := map (\<lambda>r. projr (parse_row float_decimal r)) (take k [good_row, bad_row])\<rparr>)"
    by blast
  then have "fst (load float_decimal [good_row, bad_row] new_engine) = Inl e"
    and "duration_s (snd (load float_decimal [good_row, bad_row] new_engine)) = duration_s new_engine"
    and "loaded (snd (load float_decimal [good_row, bad_row] new_engine)) = loaded new_engine"
    by simp_all
  with h show ?thesis by blast
qed

theorem load_is_partial_counterexample:
  "bad_numeric float_decimal bad_row \<and>
   load float_decimal [good_row, bad_row] new_engine =
     (Inl ValueError,
      new_engine\<lparr>events :=
        [\<lparr>evt_time_s = 0, intersection_id = ''INT_0'', phase = ''GREEN'', evt_duration_s = 40\<rparr>]\<rparr>) \<and>
   events (snd (load float_decimal [good_row, bad_row] new_engine)) \<noteq> events new_engine"
proof -
  have l: "load float_decimal [good_row, bad_row] new_engine =
     (Inl ValueError,
      new_engine\<lparr>events :=
        [\<lparr>evt_time_s = 0, intersection_id = ''INT_0'', phase = ''GREEN'', evt_duration_s = 40\<rparr>]\<rparr>)"
    by (simp add: load_def parse_good parse_bad)
  have "events (snd (load float_decimal [good_row, bad_row] new_engine)) \<noteq> events new_engine"
    unfolding l by (simp add: new_engine_def)
  with l bad_row_bad show ?thesis by blast
qed

lemma get_state_at_events:
  "events eng' = events eng \<Longrightarrow> get_state_at eng' t = get_state_at eng t"
  by (simp add: get_state_at_def)

lemma replay_body_yield:
  assumes "t \<le> duration_s eng" "duration_s eng \<noteq> 0"
  shows "replay_body t eng =
     (Inr (Some \<lparr>snap_time_s = py_round_nd t 1,
                  snap_duration_s = duration_s eng,
                  progress = py_round_nd (t / duration_s eng * 100) 1,
                  states = get_state_at eng t\<rparr>),
      Suspended t, eng\<lparr>current_time := t, current_state := get_state_at eng t\<rparr>)"
  using assms by (simp add: replay_body_def Let_def)

lemma replay_body_stop:
  "\<not> t \<le> duration_s eng \<Longrightarrow> replay_body t eng = (Inr None, Finished, eng)"
  by (simp add: replay_body_def)

lemma replay_body_zero:
  "duration_s eng = 0 \<Longrightarrow> t \<le> 0 \<Longrightarrow>
   fst (replay_body t eng) = Inl ZeroDivisionError"
  by (simp add: replay_body_def Let_def)

lemma floor_ticks_step:
  fixes d t s :: real
  assumes "0 < s" "t + s \<le> d"
  shows "nat \<lfloor>(d - t) / s\<rfloor> = Suc (nat \<lfloor>(d - (t + s)) / s\<rfloor>)"
proof -
  have "(d - (t + s)) / s = (d - t) / s - 1"
    using assms(1) by (simp add: field_simps)
  then have f: "\<lfloor>(d - (t + s)) / s\<rfloor> = \<lfloor>(d - t) / s\<rfloor> - 1"
    by (simp only: floor_diff_one)
  have "0 \<le> (d - (t + s)) / s" using assms by simp
  then have "0 \<le> \<lfloor>(d - (t + s)) / s\<rfloor>" by simp
  then show ?thesis using f by linarith
qed

lemma floor_ticks_none:
  fixes d t s :: real
  assumes "0 < s" "t \<le> d" "\<not> t + s \<le> d"
  shows "nat \<lfloor>(d - t) / s\<rfloor> = 0"
proof -
  have "(d - t) / s < 1" using assms by (simp add: field_simps)
  then have "\<lfloor>(d - t) / s\<rfloor> < 1" by linarith
  then show ?thesis by simp
qed

lemma replay_take_suspended:
  assumes "0 < duration_s eng0" "0 < step_s"
  shows "events eng = events eng0 \<Longrightarrow> duration_s eng = duration_s eng0 \<Longrightarrow>
   t \<le> duration_s eng0 \<Longrightarrow>
   \<exists>snaps g'. replay_take float_of rows speed step_s n (Suspended t, eng) = (Inr snaps, g') \<and>
     length snaps = min n (nat \<lfloor>(duration_s eng0 - t) / step_s\<rfloor>) \<and>
     (\<forall>k < length snaps.
        progress (snaps ! k) =
          py_round_nd ((t + real (Suc k) * step_s) / duration_s eng0 * 100) 1 \<and>
        snap_time_s (snaps ! k) = py_round_nd (t + real (Suc k) * step_s) 1 \<and>
        states (snaps ! k) = get_state_at eng0 (t + real (Suc k) * step_s))"
proof (induction n arbitrary: t eng)
  case 0
  then show ?case by simp
next
  case (Suc n)
  let ?d = "duration_s eng0"
  show ?case
  proof (cases "t + step_s \<le> ?d")
    case False
    then have "replay_next float_of rows speed step_s (Suspended t, eng) = (Inr None, Finished, eng)"
      using Suc.prems by (simp add: replay_next_def replay_body_stop)
    then have "replay_take float_of rows speed step_s (Suc n) (Suspended t, eng) = (Inr [], Finished, eng)"
      by simp
    moreover have "nat \<lfloor>(?d - t) / step_s\<rfloor> = 0"
      using floor_ticks_none [OF assms(2) Suc.prems(3) False] .
    ultimately show ?thesis by simp
  next
    case True
    let ?t = "t + step_s"
    let ?snap = "\<lparr>snap_time_s = py_round_nd ?t 1, snap_duration_s = duration_s eng,
        progress = py_round_nd (?t / duration_s eng * 100) 1, states = get_state_at eng ?t\<rparr>"
    let ?eng = "eng\<lparr>current_time := ?t, current_state := get_state_at eng ?t\<rparr>"
    have nz: "duration_s eng \<noteq> 0" using assms(1) Suc.prems(2) by simp
    have le: "?t \<le> duration_s eng" using True Suc.prems(2) by simp
    have nx: "replay_next float_of rows speed step_s (Suspended t, eng) =
        (Inr (Some ?snap), Suspended ?t, ?eng)"
      using replay_body_yield [OF le nz] by (simp add: replay_next_def)
    have "events ?eng = events eng0" "duration_s ?eng = duration_s eng0"
      using Suc.prems by simp_all
    from Suc.IH [OF this True]
    obtain snaps g' where r:
      "replay_take float_of rows speed step_s n (Suspended ?t, ?eng) = (Inr snaps, g')"
      "length snaps = min n (nat \<lfloor>(?d - ?t) / step_s\<rfloor>)"
      "\<forall>k < length snaps.
        progress (snaps ! k) = py_round_nd ((?t + real (Suc k) * step_s) / ?d * 100) 1 \<and>
        snap_time_s (snaps ! k) = py_round_nd (?t + real (Suc k) * step_s) 1 \<and>
        states (snaps ! k) = get_state_at eng0 (?t + real (Suc k) * step_s)"
      by blast
    have tk: "replay_take float_of rows speed step_s (Suc n) (Suspended t, eng) =
        (Inr (?snap # snaps), g')"
      using nx r(1) by simp
    have len: "length (?snap # snaps) = min (Suc n) (nat \<lfloor>(?d - t) / step_s\<rfloor>)"
      using r(2) floor_ticks_step [OF assms(2) True] by simp
    have each: "\<forall>k < length (?snap # snaps).
        progress ((?snap # snaps) ! k) = py_round_nd ((t + real (Suc k) * step_s) / ?d * 100) 1 \<and>
        snap_time_s ((?snap # snaps) ! k) = py_round_nd (t + real (Suc k) * step_s) 1 \<and>
        states ((?snap # snaps) ! k) = get_state_at eng0 (t + real (Suc k) * step_s)"
    proof (intro allI impI)
      fix k assume k: "k < length (?snap # snaps)"
      show "progress ((?snap # snaps) ! k) = py_round_nd ((t + real (Suc k) * step_s) / ?d * 100) 1 \<and>
        snap_time_s ((?snap # snaps) ! k) = py_round_nd (t + real (Suc k) * step_s) 1 \<and>
        states ((?snap # snaps) ! k) = get_state_at eng0 (t + real (Suc k) * step_s)"
      proof (cases k)
        case 0
        then show ?thesis
          using Suc.prems(2) get_state_at_events [OF Suc.prems(1), of ?t] by simp
      next
        case (Suc j)
        then have j: "j < length snaps" using k by simp
        have eq: "?t + real (Suc j) * step_s = t + real (Suc (Suc j)) * step_s"
          by (simp add: algebra_simps)
        have "progress (snaps ! j) = py_round_nd ((?t + real (Suc j) * step_s) / ?d * 100) 1 \<and>
          snap_time_s (snaps ! j) = py_round_nd (?t + real (Suc j) * step_s) 1 \<and>
          states (snaps ! j) = get_state_at eng0 (?t + real (Suc j) * step_s)"
          using r(3) j by blast
        then have "progress (snaps ! j) = py_round_nd ((t + real (Suc (Suc j)) * step_s) / ?d * 100) 1 \<and>
          snap_time_s (snaps ! j) = py_round_nd (t + real (Suc (Suc j)) * step_s) 1 \<and>
          states (snaps ! j) = get_state_at eng0 (t + real (Suc (Suc j)) * step_s)"
          by (simp only: eq)
        then show ?thesis
          unfolding Suc nth_Cons_Suc .
      qed
    qed
    show ?thesis using tk len each by blast
  qed
qed

lemma replay_take_started:
  assumes "loaded eng" "0 < duration_s eng" "speed \<noteq> 0" "0 < step_s"
  shows "\<exists>snaps g'. replay_take float_of rows speed step_s n (NotStarted, eng) = (Inr snaps, g') \<and>
       length snaps = min n (nat \<lfloor>duration_s eng / step_s\<rfloor> + 1) \<and>
       (\<forall>k < length snaps.
          progress (snaps ! k) = py_round_nd (real k * step_s / duration_s eng * 100) 1 \<and>
          snap_time_s (snaps ! k) = py_round_nd (real k * step_s) 1 \<and>
          states (snaps ! k) = get_state_at eng (real k * step_s))"
proof (cases n)
  case 0
  then show ?thesis by simp
next
  case (Suc m)
  let ?d = "duration_s eng"
  let ?snap = "\<lparr>snap_time_s = py_round_nd 0 1, snap_duration_s = ?d,
      progress = py_round_nd (0 / ?d * 100) 1, states = get_state_at eng 0\<rparr>"
  let ?eng = "eng\<lparr>current_time := 0, current_state := get_state_at eng 0\<rparr>"
  have le: "0 \<le> ?d" and nz: "?d \<noteq> 0" using assms(2) by simp_all
  have nx: "replay_next float_of rows speed step_s (NotStarted, eng) =
      (Inr (Some ?snap), Suspended 0, ?eng)"
    using replay_body_yield [OF le nz] assms(1,3) by (simp add: replay_next_def)
  have "events ?eng = events eng" "duration_s ?eng = duration_s eng" by simp_all
  from replay_take_suspended [OF assms(2) assms(4) this le, of float_of rows speed m]
  obtain snaps g' where r:
    "replay_take float_of rows speed step_s m (Suspended 0, ?eng) = (Inr snaps, g')"
    "length snaps = min m (nat \<lfloor>(?d - 0) / step_s\<rfloor>)"
    "\<forall>k < length snaps.
      progress (snaps ! k) = py_round_nd ((0 + real (Suc k) * step_s) / ?d * 100) 1 \<and>
      snap_time_s (snaps ! k) = py_round_nd (0 + real (Suc k) * step_s) 1 \<and>
      states (snaps ! k) = get_state_at eng (0 + real (Suc k) * step_s)"
    by blast
  have tk: "replay_take float_of rows speed step_s n (NotStarted, eng) = (Inr (?snap # snaps), g')"
    unfolding Suc using nx r(1) by simp
  have len: "length (?snap # snaps) = min n (nat \<lfloor>?d / step_s\<rfloor> + 1)"
    using r(2) Suc by simp
  have each: "\<forall>k < length (?snap # snaps).
      progress ((?snap # snaps) ! k) = py_round_nd (real k * step_s / ?d * 100) 1 \<and>
      snap_time_s ((?snap # snaps) ! k) = py_round_nd (real k * step_s) 1 \<and>
      states ((?snap # snaps) ! k) = get_state_at eng (real k * step_s)"
  proof (intro allI impI)
    fix k assume k: "k < length (?snap # snaps)"
    show "progress ((?snap # snaps) ! k) = py_round_nd (real k * step_s / ?d * 100) 1 \<and>
      snap_time_s ((?snap # snaps) ! k) = py_round_nd (real k * step_s) 1 \<and>
      states ((?snap # snaps) ! k) = get_state_at eng (real k * step_s)"
    proof (cases k)
      case 0
      then show ?thesis by simp
    next
      case (Suc j)
      then have j: "j < length snaps" using k by simp
      have "progress (snaps ! j) = py_round_nd ((0 + real (Suc j) * step_s) / ?d * 100) 1 \<and>
        snap_time_s (snaps ! j) = py_round_nd (0 + real (Suc j) * step_s) 1 \<and>
        states (snaps ! j) = get_state_at eng (0 + real (Suc j) * step_s)"
        using r(3) j by blast
      then have "progress (snaps ! j) = py_round_nd (real (Suc j) * step_s / ?d * 100) 1 \<and>
        snap_time_s (snaps ! j) = py_round_nd (real (Suc j) * step_s) 1 \<and>
        states (snaps ! j) = get_state_at eng (real (Suc j) * step_s)"
        by (simp only: add_0)
      then show ?thesis
        unfolding Suc nth_Cons_Suc .
    qed
  qed
  show ?thesis using tk len each by blast
qed

lemma replay_take_zero_duration:
  assumes "loaded eng" "duration_s eng = 0" "speed \<noteq> 0"
  shows "fst (replay_take float_of rows speed step_s (Suc n) (NotStarted, eng)) = Inl ZeroDivisionError"
proof -
  have "replay_next float_of rows speed step_s (NotStarted, eng) = replay_body 0 eng"
    using assms(1,3) by (simp add: replay_next_def)
  moreover have "fst (replay_body 0 eng) = Inl ZeroDivisionError"
    using assms(2) by (simp add: replay_body_zero)
  ultimately show ?thesis
    by (cases "replay_body 0 eng") simp
qed

lemma parse_zero: "parse_row float_decimal zero_row =
   Inr \<lparr>evt_time_s = 0, intersection_id = ''INT_0'', phase = ''GREEN'', evt_duration_s = 0\<rparr>"
  by (simp add: parse_row_def zero_row_def float_decimal_def py_strip_def is_space_def
      is_digit_def digits_value_def py_upper_def upper_char_def)

lemma load_zero:
  "load float_decimal [zero_row] new_engine =
     (Inr (), \<lparr>events = [\<lparr>evt_time_s = 0, intersection_id = ''INT_0'', phase = ''GREEN'',
                           evt_duration_s = 0\<rparr>],
               duration_s = 0, current_state = [], current_time = 0, loaded = True\<rparr>)"
  by (simp add: load_def parse_zero new_engine_def)

text \<open>
  C9, as the code has it. On a loaded engine whose total duration is positive, with a
  positive speed and step, the consumer of \<open>replay\<close> gets snapshots and no exception:
  one per step from 0 up to the duration, the \<open>k\<close>-th with the progress
  \<open>round(t / duration * 100, 1)\<close> at \<open>t = k * step\<close>. The positive duration is needed:
  with a duration of 0 the first \<open>next\<close> raises \<open>ZeroDivisionError\<close>, where
  \<open>get_snapshot\<close> reports a progress of 0. A loaded event does not make the duration
  positive (\<open>replay_zero_duration_counterexample\<close>).
\<close>

theorem replay_progress_without_division_error:
  "(loaded eng \<and> 0 < duration_s eng \<and> 0 < speed \<and> 0 < step_s \<longrightarrow>
      (\<exists>snaps g'. replay_take float_of rows speed step_s n (NotStarted, eng) = (Inr snaps, g') \<and>
         length snaps = min n (nat \<lfloor>duration_s eng / step_s\<rfloor> + 1) \<and>
         (\<forall>k < length snaps.
            progress (snaps ! k) = py_round_nd (real k * step_s / duration_s eng * 100) 1 \<and>
            snap_time_s (snaps ! k) = py_round_nd (real k * step_s) 1 \<and>
            states (snaps ! k) = get_state_at eng (real k * step_s)))) \<and>
   (loaded eng \<and> duration_s eng = 0 \<and> speed \<noteq> 0 \<longrightarrow>
      fst (replay_take float_of rows speed step_s (Suc n) (NotStarted, eng)) = Inl ZeroDivisionError) \<and>
   (duration_s eng = 0 \<longrightarrow> progress (get_snapshot eng) = 0)"
proof (intro conjI impI)
  assume a: "loaded eng \<and> 0 < duration_s eng \<and> 0 < speed \<and> 0 < step_s"
  then have "speed \<noteq> 0" by simp
  with a show "\<exists>snaps g'. replay_take float_of rows speed step_s n (NotStarted, eng) = (Inr snaps, g') \<and>
         length snaps = min n (nat \<lfloor>duration_s eng / step_s\<rfloor> + 1) \<and>
         (\<forall>k < length snaps.
            progress (snaps ! k) = py_round_nd (real k * step_s / duration_s eng * 100) 1 \<and>
            snap_time_s (snaps ! k) = py_round_nd (real k * step_s) 1 \<and>
            states (snaps ! k) = get_state_at eng (real k * step_s))"
    using replay_take_started [of eng speed step_s float_of rows n] by blast
next
  assume "loaded eng \<and> duration_s eng = 0 \<and> speed \<noteq> 0"
  then show "fst (replay_take float_of rows speed step_s (Suc n) (NotStarted, eng)) = Inl ZeroDivisionError"
    using replay_take_zero_duration by blast
next
  assume "duration_s eng = 0"
  then show "progress (get_snapshot eng) = 0"
    by (simp add: get_snapshot_def)
qed

theorem replay_progress_without_division_error_witness:
  "loaded sample_engine \<and> 0 < duration_s sample_engine \<and> (0::real) < 1 \<and> (0::real) < 15 \<and>
   (\<exists>snaps g'. replay_take float_decimal [] 1 15 2 (NotStarted, sample_engine) = (Inr snaps, g') \<and>
      length snaps = 2 \<and> progress (snaps ! 1) = 33.3) \<and>
   loaded (new_engine\<lparr>loaded := True\<rparr>) \<and> duration_s (new_engine\<lparr>loaded := True\<rparr>) = 0 \<and>
   fst (replay_take float_decimal [] 1 15 (Suc 0) (NotStarted, new_engine\<lparr>loaded := True\<rparr>))
     = Inl ZeroDivisionError \<and>
   progress (get_snapshot (new_engine\<lparr>loaded := True\<rparr>)) = 0"
proof -
  have h: "loaded sample_engine \<and> 0 < duration_s sample_engine \<and> (0::real) < 1 \<and> (0::real) < 15"
    by (simp add: sample_engine_def)
  have hz: "loaded (new_engine\<lparr>loaded := True\<rparr>) \<and> duration_s (new_engine\<lparr>loaded := True\<rparr>) = 0
      \<and> (1::real) \<noteq> 0"
    by (simp add: new_engine_def)
  have fl: "nat \<lfloor>duration_s sample_engine / 15\<rfloor> = 3"
    by (simp add: sample_engine_def)
  have pr: "py_round_nd (real 1 * 15 / duration_s sample_engine * 100) 1 = 33.3"
    by (simp add: sample_engine_def py_round_nd_def py_round_def Let_def)
  from replay_progress_without_division_error [of sample_engine 1 15 float_decimal "[]" 2] h
  obtain snaps g' where s:
    "replay_take float_decimal [] 1 15 2 (NotStarted, sample_engine) = (Inr snaps, g')"
    "length snaps = min 2 (nat \<lfloor>duration_s sample_engine / 15\<rfloor> + 1)"
    "\<forall>k < length snaps.
        progress (snaps ! k) = py_round_nd (real k * 15 / duration_s sample_engine * 100) 1 \<and>
        snap_time_s (snaps ! k) = py_round_nd (real k * 15) 1 \<and>
        states (snaps ! k) = get_state_at sample_engine (real k * 15)"
    by blast
  have l2: "length snaps = 2" using s(2) fl by simp
  then have "progress (snaps ! 1) = py_round_nd (real 1 * 15 / duration_s sample_engine * 100) 1"
    using s(3) by simp
  then have p: "progress (snaps ! 1) = 33.3" using pr by simp
  have e: "\<exists>snaps g'. replay_take float_decimal [] 1 15 2 (NotStarted, sample_engine) = (Inr snaps, g') \<and>
      length snaps = 2 \<and> progress (snaps ! 1) = 33.3"
    using s(1) l2 p by blast
  have z: "fst (replay_take float_decimal [] 1 15 (Suc 0) (NotStarted, new_engine\<lparr>loaded := True\<rparr>))
     = Inl ZeroDivisionError"
    using replay_progress_without_division_error
      [of "new_engine\<lparr>loaded := True\<rparr>" 1 15 float_decimal "[]" 0] hz by blast
  have g: "progress (get_snapshot (new_engine\<lparr>loaded := True\<rparr>)) = 0"
    using replay_progress_without_division_error
      [of "new_engine\<lparr>loaded := True\<rparr>" 1 15 float_decimal "[]" 0] hz by blast
  show ?thesis using h e hz z g by blast
qed

theorem replay_zero_duration_counterexample:
  "fst (load float_decimal [zero_row] new_engine) = Inr () \<and>
   events (snd (load float_decimal [zero_row] new_engine)) \<noteq> [] \<and>
   loaded (snd (load float_decimal [zero_row] new_engine)) \<and>
   duration_s (snd (load float_decimal [zero_row] new_engine)) = 0 \<and>
   fst (replay_take float_decimal [zero_row] 1 1 1
          (NotStarted, snd (load float_decimal [zero_row] new_engine))) = Inl ZeroDivisionError"
  unfolding load_zero
  by (simp add: replay_next_def replay_body_def Let_def)

subsection \<open>Road network and routing\<close>

lemma upt7: "[0 ..< 7] = [0, 1, 2, 3, 4, 5, 6]" by (simp add: upt_rec)
lemma upt8: "[0 ..< 8] = [0, 1, 2, 3, 4, 5, 6, 7]" by (simp add: upt_rec)

lemma city_node_ids: "node_ids CITY_GRAPH =
  [''0-0'', ''0-1'', ''0-2'', ''0-3'', ''0-4'', ''0-5'', ''0-6'', ''0-7'',
   ''1-0'', ''1-1'', ''1-2'', ''1-3'', ''1-4'', ''1-5'', ''1-6'', ''1-7'',
   ''2-0'', ''2-1'', ''2-2'', ''2-3'', ''2-4'', ''2-5'', ''2-6'', ''2-7'',
   ''3-0'', ''3-1'', ''3-2'', ''3-3'', ''3-4'', ''3-5'', ''3-6'', ''3-7'',
   ''4-0'', ''4-1'', ''4-2'', ''4-3'', ''4-4'', ''4-5'', ''4-6'', ''4-7'',
   ''5-0'', ''5-1'', ''5-2'', ''5-3'', ''5-4'', ''5-5'', ''5-6'', ''5-7'',
   ''6-0'', ''6-1'', ''6-2'', ''6-3'', ''6-4'', ''6-5'', ''6-6'', ''6-7'']"
  by (simp add: node_ids_def CITY_GRAPH_def generate_city_grid_def upt7 upt8 grid_node_id_def
      show_nat.simps digit_char_def comp_def Let_def)

lemma base_time_grid: "base_time grid_edge_data = 36"
  by (simp add: grid_edge_data_def)

lemma city_first_edges:
  "take 2 (g_edges CITY_GRAPH) =
     [(''0-0'', ''1-0'', grid_edge_data), (''0-0'', ''0-1'', grid_edge_data)]"
  by (simp add: CITY_GRAPH_def generate_city_grid_def upt7 upt8 grid_node_id_def
      show_nat.simps digit_char_def Let_def)

lemma node_ids_set_current_weights [simp]:
  "node_ids (set_current_weights G traffic_data) = node_ids G"
  by (simp add: node_ids_def set_current_weights_def split: option.splits list.splits)

lemma find_append_first:
  "find P xs = Some x \<Longrightarrow> find P (xs @ ys) = Some x"
  by (induction xs) (auto split: if_splits)

lemma find_map_weights:
  "find (\<lambda>(a, b, d). (a = u \<and> b = v) \<or> (a = v \<and> b = u))
     (map (\<lambda>(a, b, d). (a, b, d\<lparr>current_weight := Some (base_time d + dict_get td b * 2)\<rparr>)) es) =
   map_option (\<lambda>(a, b, d). (a, b, d\<lparr>current_weight := Some (base_time d + dict_get td b * 2)\<rparr>))
     (find (\<lambda>(a, b, d). (a = u \<and> b = v) \<or> (a = v \<and> b = u)) es)"
proof (induction es)
  case Nil
  then show ?case by simp
next
  case (Cons e es)
  obtain a b d where e: "e = (a, b, d)" by (cases e) auto
  show ?case unfolding e using Cons.IH by simp
qed

lemma g_edges_weighted:
  "g_edges (set_current_weights G (Some (x # xs))) =
     map (\<lambda>(a, b, d). (a, b, d\<lparr>current_weight := Some (base_time d + dict_get (x # xs) b * 2)\<rparr>))
       (g_edges G)"
  by (simp add: set_current_weights_def Let_def)

lemma traversal_weight_stored:
  "traversal_weight (set_current_weights G (Some (x # xs))) u v =
     (case find (\<lambda>(a, b, d). (a = u \<and> b = v) \<or> (a = v \<and> b = u)) (g_edges G) of
        None \<Rightarrow> None
      | Some (a, b, d) \<Rightarrow> Some (base_time d + dict_get (x # xs) b * 2))"
proof (cases "find (\<lambda>(a, b, d). (a = u \<and> b = v) \<or> (a = v \<and> b = u)) (g_edges G)")
  case None
  then show ?thesis
    unfolding traversal_weight_def g_edges_weighted find_map_weights by simp
next
  case (Some e)
  obtain a b d where e: "e = (a, b, d)" by (cases e) auto
  show ?thesis
    unfolding traversal_weight_def g_edges_weighted find_map_weights Some e by simp
qed

lemma city_find_00_01:
  "find (\<lambda>(a, b, d). (a = ''0-1'' \<and> b = ''0-0'') \<or> (a = ''0-0'' \<and> b = ''0-1'')) (g_edges CITY_GRAPH)
     = Some (''0-0'', ''0-1'', grid_edge_data)"
proof -
  have h: "find (\<lambda>(a, b, d). (a = ''0-1'' \<and> b = ''0-0'') \<or> (a = ''0-0'' \<and> b = ''0-1''))
      (take 2 (g_edges CITY_GRAPH)) = Some (''0-0'', ''0-1'', grid_edge_data)"
    unfolding city_first_edges by simp
  show ?thesis
    using find_append_first [OF h, of "drop 2 (g_edges CITY_GRAPH)"]
    by (simp only: append_take_drop_id)
qed

lemma city_find_01_00:
  "find (\<lambda>(a, b, d). (a = ''0-0'' \<and> b = ''0-1'') \<or> (a = ''0-1'' \<and> b = ''0-0'')) (g_edges CITY_GRAPH)
     = Some (''0-0'', ''0-1'', grid_edge_data)"
proof -
  have h: "find (\<lambda>(a, b, d). (a = ''0-0'' \<and> b = ''0-1'') \<or> (a = ''0-1'' \<and> b = ''0-0''))
      (take 2 (g_edges CITY_GRAPH)) = Some (''0-0'', ''0-1'', grid_edge_data)"
    unfolding city_first_edges by simp
  show ?thesis
    using find_append_first [OF h, of "drop 2 (g_edges CITY_GRAPH)"]
    by (simp only: append_take_drop_id)
qed

text \<open>
  C2, at an input where the code departs from it. The weight is stored once on the
  undirected edge, from the queue of the endpoint that the enumeration of the edges lists
  second (\<open>traversal_weight_stored\<close>), and both directions of travel read that one value.
  On the city grid the edge between \<open>0-0\<close> and \<open>0-1\<close> is enumerated as
  \<open>(0-0, 0-1)\<close>. With a queue of 50 at \<open>0-0\<close> only, going from \<open>0-1\<close> into \<open>0-0\<close>
  weighs 36, not \<open>36 + 2 * 50\<close>; with a queue of 50 at \<open>0-1\<close> only, going from \<open>0-1\<close>
  into \<open>0-0\<close> weighs 136, not 36.
\<close>

theorem reverse_traversal_weight_at_congested_node:
  "traversal_weight (set_current_weights CITY_GRAPH (Some [(''0-0'', 50)])) ''0-1'' ''0-0'' = Some 36 \<and>
   traversal_weight (set_current_weights CITY_GRAPH (Some [(''0-1'', 50)])) ''0-1'' ''0-0'' = Some 136 \<and>
   traversal_weight (set_current_weights CITY_GRAPH (Some [(''0-1'', 50)])) ''0-0'' ''0-1'' = Some 136"
  unfolding traversal_weight_stored city_find_00_01 city_find_01_00
  by (simp add: base_time_grid dict_get_def)

lemma nx_shortest_path_unknown:
  "source \<notin> set (node_ids G) \<or> target \<notin> set (node_ids G) \<Longrightarrow>
   nx_shortest_path G source target = Inl NodeNotFound"
  by (simp add: nx_shortest_path_def)

lemma get_best_route_on_unknown:
  assumes "s \<notin> set (node_ids G) \<or> e \<notin> set (node_ids G)"
  shows "get_best_route_on G s e td = Inl NodeNotFound"
proof -
  have "s \<notin> set (node_ids (set_current_weights G td)) \<or> e \<notin> set (node_ids (set_current_weights G td))"
    using assms by simp
  then have "nx_shortest_path (set_current_weights G td) s e = Inl NodeNotFound"
    by (rule nx_shortest_path_unknown)
  then show ?thesis by (simp add: get_best_route_on_def)
qed

lemma find_optimal_path_unknown:
  assumes "s \<notin> set (node_ids G) \<or> e \<notin> set (node_ids G)"
  shows "find_optimal_path search G s e rd = Inl NodeNotFound"
  using assms by (simp add: find_optimal_path_def nx_astar_path_def)

lemma unknown_9_9: "''9-9'' \<notin> set (node_ids CITY_GRAPH)"
  by (simp add: city_node_ids)

text \<open>
  C1, as the code has it. When the start id or the end id is not a node of the network,
  the library raises \<open>NodeNotFound\<close>, and \<open>get_best_route\<close> and \<open>find_optimal_path\<close>,
  which catch \<open>NetworkXNoPath\<close> only, raise it to their caller: they do not return the
  empty list. The empty list is what they return when the library finds no path.
\<close>

theorem unknown_endpoint_raises_node_not_found:
  "(s \<notin> set (node_ids G) \<or> e \<notin> set (node_ids G) \<longrightarrow>
      get_best_route_on G s e td = Inl NodeNotFound \<and>
      find_optimal_path search G s e rd = Inl NodeNotFound) \<and>
   (s \<notin> set (node_ids CITY_GRAPH) \<or> e \<notin> set (node_ids CITY_GRAPH) \<longrightarrow>
      get_best_route s e td = Inl NodeNotFound) \<and>
   (nx_shortest_path (set_current_weights G td) s e = Inl NetworkXNoPath \<longrightarrow>
      get_best_route_on G s e td = Inr [])"
  using get_best_route_on_unknown find_optimal_path_unknown
  by (simp add: get_best_route_def get_best_route_on_def)

theorem unknown_endpoint_raises_node_not_found_witness:
  "''9-9'' \<notin> set (node_ids CITY_GRAPH) \<and>
   get_best_route_on CITY_GRAPH ''0-0'' ''9-9'' (Some [(''0-1'', 3)]) = Inl NodeNotFound \<and>
   find_optimal_path (\<lambda>G s t h w. Inl NetworkXNoPath) CITY_GRAPH ''0-0'' ''9-9'' None = Inl NodeNotFound \<and>
   get_best_route ''0-0'' ''9-9'' (Some [(''0-1'', 3)]) = Inl NodeNotFound"
  using unknown_endpoint_raises_node_not_found
    [of "''0-0''" CITY_GRAPH "''9-9''" "Some [(''0-1'', 3)]" "\<lambda>G s t h w. Inl NetworkXNoPath" None]
    unknown_9_9
  by blast

theorem unknown_start_counterexample:
  "''9-9'' \<notin> set (node_ids CITY_GRAPH) \<and>
   get_best_route ''9-9'' ''0-0'' None = Inl NodeNotFound \<and>
   get_best_route ''9-9'' ''0-0'' None \<noteq> Inr []"
proof -
  have "get_best_route ''9-9'' ''0-0'' None = Inl NodeNotFound"
    using unknown_9_9
    by (simp add: get_best_route_def get_best_route_on_def nx_shortest_path_def)
  then show ?thesis using unknown_9_9 by simp
qed

text \<open>
  The city grid has no triangle: the two ends of an edge have no common neighbour, so no
  edge of the grid has a two-edge path beside it. (The sum of the row and the column of
  a node changes its parity along every edge.)
\<close>

lemma city_grid_edge_has_no_two_edge_alternate:
  "\<not> (has_edge CITY_GRAPH s t \<and> has_edge CITY_GRAPH s c \<and> has_edge CITY_GRAPH c t)"
proof -
  define colour :: "string \<Rightarrow> bool"
    where "colour n = even ((of_char (n ! 0) :: nat) + of_char (n ! 2))" for n
  have two_coloured: "list_all (\<lambda>(a, b, d). colour a \<noteq> colour b) (g_edges CITY_GRAPH)"
    by (simp add: CITY_GRAPH_def generate_city_grid_def upt7 upt8 grid_node_id_def
        show_nat.simps digit_char_def Let_def colour_def)
  have differ: "colour u \<noteq> colour v" if joined: "has_edge CITY_GRAPH u v" for u v
  proof -
    obtain a b d where e: "(a, b, d) \<in> set (g_edges CITY_GRAPH)"
      and uv: "(a = u \<and> b = v) \<or> (a = v \<and> b = u)"
      using joined by (auto simp: has_edge_def list_ex_iff)
    have "colour a \<noteq> colour b"
      using two_coloured e by (auto simp: list_all_iff)
    then show ?thesis using uv by auto
  qed
  show ?thesis
    using differ [of s t] differ [of s c] differ [of c t] by blast
qed

end
